theory Spec2Isabelle
  imports Complex_Main "HOL-Library.Word" "HOL-Library.Log_Nat"
begin

unbundle bit_operations_syntax

section \<open>Double precision arithmetic\<close>

text \<open>
  The type \<^verbatim>\<open>double\<close> of the source is the IEEE 754 binary64 format. A value is a
  finite number, one of the two infinities, or not a number. A finite value carries the
  real number it stands for; the doubles among them are the fixed points of
  \<open>to_double\<close>. The two zeros of the format are one value here: they compare equal, and
  no result below depends on the sign of a zero.
\<close>

datatype double = Finite real | PosInf | NegInf | NaN

text \<open>Rounding a real to the nearest integer, a tie going to the even one.\<close>

definition round_even :: "real \<Rightarrow> int" where
  "round_even x =
     (if x - of_int \<lfloor>x\<rfloor> < 1 / 2 then \<lfloor>x\<rfloor>
      else if 1 / 2 < x - of_int \<lfloor>x\<rfloor> then \<lfloor>x\<rfloor> + 1
      else if even \<lfloor>x\<rfloor> then \<lfloor>x\<rfloor> else \<lfloor>x\<rfloor> + 1)"

text \<open>
  The binary exponent of the format for a real \<open>x\<close>: the \<open>e\<close> with
  \<open>2^e \<le> |x| < 2^(e+1)\<close>, but not below \<open>-1022\<close>, the exponent of the subnormal
  numbers. It is computed from the number of bits of \<open>\<lfloor>|x| * 2^1074\<rfloor>\<close>.
\<close>

definition exponent :: "real \<Rightarrow> int" where
  "exponent x = max (bitlen \<lfloor>\<bar>x\<bar> * 2 ^ 1074\<rfloor> - 1075) (- 1022)"

text \<open>
  Rounding a real to a double, to nearest and ties to even, as every arithmetic
  operation of the format does: the significand has 53 bits, so the result is a multiple
  of \<open>2^(e-52)\<close>; a real of magnitude \<open>2^1024 - 2^970\<close> or more (half a unit above the
  largest double) rounds to an infinity.
\<close>

definition to_double :: "real \<Rightarrow> double" where
  "to_double x =
     (if 2 ^ 1024 - 2 ^ 970 \<le> x then PosInf
      else if x \<le> - (2 ^ 1024 - 2 ^ 970) then NegInf
      else Finite (of_int (round_even (x / 2 powi (exponent x - 52))) * 2 powi (exponent x - 52)))"

text \<open>A finite double: a finite value that rounding leaves as it is.\<close>

fun is_finite_double :: "double \<Rightarrow> bool" where
  "is_finite_double (Finite x) = (to_double x = Finite x)"
| "is_finite_double d = False"

text \<open>The sign of a value: \<open>-1\<close>, \<open>0\<close> or \<open>1\<close> (\<open>0\<close> for not a number).\<close>

fun dsign :: "double \<Rightarrow> int" where
  "dsign (Finite x) = (if x < 0 then - 1 else if x = 0 then 0 else 1)"
| "dsign PosInf = 1"
| "dsign NegInf = - 1"
| "dsign NaN = 0"

fun dneg :: "double \<Rightarrow> double" where
  "dneg (Finite x) = Finite (- x)"
| "dneg PosInf = NegInf"
| "dneg NegInf = PosInf"
| "dneg NaN = NaN"

text \<open>
  Addition: the exact sum of two finite values, rounded; infinities of opposite sign add
  to not a number.
\<close>

fun dadd :: "double \<Rightarrow> double \<Rightarrow> double" where
  "dadd (Finite x) (Finite y) = to_double (x + y)"
| "dadd NaN b = NaN"
| "dadd a NaN = NaN"
| "dadd PosInf NegInf = NaN"
| "dadd NegInf PosInf = NaN"
| "dadd PosInf b = PosInf"
| "dadd a PosInf = PosInf"
| "dadd NegInf b = NegInf"
| "dadd a NegInf = NegInf"

definition dsub :: "double \<Rightarrow> double \<Rightarrow> double" where
  "dsub a b = dadd a (dneg b)"

text \<open>
  Multiplication: the exact product of two finite values, rounded; an infinity times
  zero is not a number, otherwise an infinity with the product of the signs.
\<close>

fun dmul :: "double \<Rightarrow> double \<Rightarrow> double" where
  "dmul (Finite x) (Finite y) = to_double (x * y)"
| "dmul NaN b = NaN"
| "dmul a NaN = NaN"
| "dmul a b =
     (if dsign a * dsign b = 0 then NaN
      else if 0 < dsign a * dsign b then PosInf else NegInf)"

text \<open>
  Division: the exact quotient of two finite values, rounded. A zero divisor counts as
  the positive zero; the program divides by the constant \<open>2^64\<close> only.
\<close>

fun ddiv :: "double \<Rightarrow> double \<Rightarrow> double" where
  "ddiv NaN b = NaN"
| "ddiv a NaN = NaN"
| "ddiv (Finite x) (Finite y) =
     (if y = 0 then (if x = 0 then NaN else if 0 < x then PosInf else NegInf)
      else to_double (x / y))"
| "ddiv (Finite x) b = Finite 0"
| "ddiv a (Finite y) = (if 0 \<le> y then a else dneg a)"
| "ddiv a b = NaN"

text \<open>The comparisons \<^verbatim>\<open><\<close> and \<^verbatim>\<open><=\<close>; both are false if an operand is not a number.\<close>

fun dless :: "double \<Rightarrow> double \<Rightarrow> bool" where
  "dless (Finite x) (Finite y) = (x < y)"
| "dless NaN b = False"
| "dless a NaN = False"
| "dless a PosInf = (a \<noteq> PosInf)"
| "dless NegInf b = (b \<noteq> NegInf)"
| "dless a b = False"

definition dle :: "double \<Rightarrow> double \<Rightarrow> bool" where
  "dle a b \<longleftrightarrow> dless a b \<or> (a = b \<and> a \<noteq> NaN)"

section \<open>The random number source (random\_generator.h, random\_generator.cpp)\<close>

text \<open>
  The class \<^verbatim>\<open>RandomGenerator\<close> owns a \<^verbatim>\<open>std::mt19937\<close> engine and a
  \<^verbatim>\<open>std::uniform_real_distribution<double>\<close>. Both come from the C++ standard
  library. The engine is modelled as the standard defines it, the Mersenne twister with
  the parameters of \<^verbatim>\<open>mt19937\<close>. The distribution is modelled as the library computes
  it, in double precision: \<^verbatim>\<open>generate_canonical\<close> from two engine outputs, then
  \<^verbatim>\<open>u * (b - a) + a\<close>, every operation rounded on its own.
\<close>

type_synonym u32 = "32 word"
type_synonym u64 = "64 word"

subsection \<open>std::mt19937\<close>

text \<open>The engine state: the array of 624 words and the position of the next output.\<close>

record mt19937 =
  M_x :: "u32 list"
  M_p :: nat

text \<open>
  Seeding, \<^verbatim>\<open>seed(value)\<close>: \<^verbatim>\<open>x[0] = value mod 2^32\<close> and, for \<open>i\<close> from 1 to 623,
  \<^verbatim>\<open>x[i] = (1812433253 * (x[i-1] ^ (x[i-1] >> 30)) + i mod 624) mod 2^32\<close>;
  then \<^verbatim>\<open>p = 624\<close>. In \<open>seed_fill k i cur\<close> the word \<open>cur\<close> is \<open>x[i]\<close> and
  \<open>k\<close> entries are still to be written.
\<close>

definition seed_next :: "u32 \<Rightarrow> nat \<Rightarrow> u32" where
  "seed_next prev i = 1812433253 * (prev XOR drop_bit 30 prev) + of_nat (i mod 624)"

fun seed_fill :: "nat \<Rightarrow> nat \<Rightarrow> u32 \<Rightarrow> u32 list" where
  "seed_fill 0 i cur = []"
| "seed_fill (Suc k) i cur = cur # seed_fill k (Suc i) (seed_next cur (Suc i))"

definition mt19937_seed :: "u32 \<Rightarrow> mt19937" where
  "mt19937_seed sd = \<lparr>M_x = seed_fill 624 0 sd, M_p = 624\<rparr>"

text \<open>
  Regenerating the array, in place and in index order (\<^verbatim>\<open>_M_gen_rand\<close>): for \<open>k\<close>
  from 0 to 623, \<^verbatim>\<open>y = (x[k] & 0x80000000) | (x[(k+1) mod 624] & 0x7fffffff)\<close> and
  \<^verbatim>\<open>x[k] = x[(k+397) mod 624] ^ (y >> 1) ^ (y & 1 ? 0x9908b0df : 0)\<close>.
\<close>

definition twist_step :: "nat \<Rightarrow> u32 list \<Rightarrow> u32 list" where
  "twist_step k xs =
     (let y = (xs ! k AND 0x80000000) OR (xs ! ((k + 1) mod 624) AND 0x7fffffff)
      in xs[k := xs ! ((k + 397) mod 624) XOR drop_bit 1 y
                 XOR (if y AND 1 \<noteq> 0 then 0x9908b0df else 0)])"

definition M_gen_rand :: "mt19937 \<Rightarrow> mt19937" where
  "M_gen_rand g = \<lparr>M_x = fold twist_step [0..<624] (M_x g), M_p = 0\<rparr>"

text \<open>The output transformation (tempering) of \<^verbatim>\<open>operator()\<close>.\<close>

definition temper :: "u32 \<Rightarrow> u32" where
  "temper z0 =
     (let z1 = z0 XOR (drop_bit 11 z0 AND 0xffffffff);
          z2 = z1 XOR (push_bit 7 z1 AND 0x9d2c5680);
          z3 = z2 XOR (push_bit 15 z2 AND 0xefc60000)
      in z3 XOR drop_bit 18 z3)"

text \<open>\<^verbatim>\<open>operator()\<close>: regenerate when the array is used up, read \<^verbatim>\<open>x[p++]\<close>, temper.\<close>

definition mt19937_next :: "mt19937 \<Rightarrow> u32 \<times> mt19937" where
  "mt19937_next g =
     (let g1 = (if M_p g \<ge> 624 then M_gen_rand g else g)
      in (temper (M_x g1 ! M_p g1), g1\<lparr>M_p := M_p g1 + 1\<rparr>))"

subsection \<open>std::uniform\_real\_distribution<double>\<close>

text \<open>
  \<^verbatim>\<open>generate_canonical<double, 53>\<close> on a 32-bit engine calls it twice, for the low and
  then the high word: \<^verbatim>\<open>sum = y1 * 1.0\<close>, \<^verbatim>\<open>sum += y2 * 2^32\<close>, \<^verbatim>\<open>ret = sum / 2^64\<close>, all
  in \<^verbatim>\<open>double\<close> (the sum of the two words has up to 64 bits and is rounded to 53). A
  result that has rounded up to 1 is replaced by the largest double below 1,
  \<^verbatim>\<open>nextafter(1, 0)\<close>.
\<close>

definition generate_canonical :: "mt19937 \<Rightarrow> double \<times> mt19937" where
  "generate_canonical g =
     (case mt19937_next g of (y1, g1) \<Rightarrow>
      case mt19937_next g1 of (y2, g2) \<Rightarrow>
        let sum1 = dadd (Finite 0) (dmul (Finite (real_of_int (uint y1))) (Finite 1));
            sum2 = dadd sum1 (dmul (Finite (real_of_int (uint y2))) (Finite (2 ^ 32)));
            ret = ddiv sum2 (Finite (2 ^ 64))
        in (if dle (Finite 1) ret then Finite (1 - 1 / 2 ^ 53) else ret, g2))"

text \<open>
  \<^verbatim>\<open>distribution(engine)\<close> with the parameters \<open>(a, b)\<close> stored in the distribution:
  \<^verbatim>\<open>generate_canonical(engine) * (b - a) + a\<close>. The library requires \<open>a \<le> b\<close> and
  \<open>b - a\<close> no larger than the largest double, and checks neither in a build without its
  assertions; this is the computation of such a build. The distribution keeps no state
  other than its parameters.
\<close>

definition uniform_real_distribution_call :: "double \<times> double \<Rightarrow> mt19937 \<Rightarrow> double \<times> mt19937" where
  "uniform_real_distribution_call prm g =
     (case generate_canonical g of
        (u, g') \<Rightarrow> (dadd (dmul u (dsub (snd prm) (fst prm))) (fst prm), g'))"

subsection \<open>RandomGenerator\<close>

text \<open>
  The errors of the specification's taxonomy. The result of an operation that can fail
  is a sum, \<open>Inl\<close> carrying the error.
\<close>

datatype error = InvalidRange | InvalidConfiguration

record RandomGenerator =
  generator :: mt19937
  distribution :: "double \<times> double"

text \<open>
  \<^verbatim>\<open>RandomGenerator(unsigned int seed) : generator_(seed)\<close>; the distribution member is
  default-constructed, with the parameters \<open>(0, 1)\<close>.
\<close>

definition RandomGenerator_seed :: "u32 \<Rightarrow> RandomGenerator" where
  "RandomGenerator_seed sd =
     \<lparr>generator = mt19937_seed sd, distribution = (Finite 0, Finite 1)\<rparr>"

text \<open>
  \<^verbatim>\<open>RandomGenerator() : generator_(std::random_device{}() ^ now().time_since_epoch().count())\<close>.
  The two readings of the environment are the arguments: \<open>rd\<close> is the 32-bit value of
  \<^verbatim>\<open>std::random_device\<close> and \<open>now\<close> the 64-bit tick count of the clock. The exclusive
  or is taken at 64 bits and the engine keeps its low 32 bits.
\<close>

definition RandomGenerator_default :: "u32 \<Rightarrow> u64 \<Rightarrow> RandomGenerator" where
  "RandomGenerator_default rd now =
     \<lparr>generator = mt19937_seed (ucast ((ucast rd :: u64) XOR now)),
      distribution = (Finite 0, Finite 1)\<rparr>"

text \<open>
  \<^verbatim>\<open>uniform(min, max)\<close>: store \<open>(min, max)\<close> as the parameters of the distribution, then
  draw from it. The source has no check of the arguments and raises no error of its own,
  so the result is always \<open>Inr\<close>.
\<close>

definition uniform :: "double \<Rightarrow> double \<Rightarrow> RandomGenerator \<Rightarrow> error + double \<times> RandomGenerator" where
  "uniform mn mx rg =
     (let rg1 = rg\<lparr>distribution := (mn, mx)\<rparr>
      in case uniform_real_distribution_call (distribution rg1) (generator rg1) of
           (v, g') \<Rightarrow> Inr (v, rg1\<lparr>generator := g'\<rparr>))"

text \<open>\<^verbatim>\<open>setSeed(seed)\<close>: \<^verbatim>\<open>generator_.seed(seed)\<close>; the distribution is left as it is.\<close>

definition setSeed :: "u32 \<Rightarrow> RandomGenerator \<Rightarrow> RandomGenerator" where
  "setSeed sd rg = rg\<lparr>generator := mt19937_seed sd\<rparr>"

text \<open>
  A sequence of \<^verbatim>\<open>uniform\<close> calls on one instance, in order: the values returned and the
  instance afterwards.
\<close>

fun uniforms ::
  "(double \<times> double) list \<Rightarrow> RandomGenerator \<Rightarrow> error + double list \<times> RandomGenerator" where
  "uniforms [] rg = Inr ([], rg)"
| "uniforms ((mn, mx) # cs) rg =
     (case uniform mn mx rg of
        Inl e \<Rightarrow> Inl e
      | Inr (v, rg1) \<Rightarrow>
          (case uniforms cs rg1 of
             Inl e \<Rightarrow> Inl e
           | Inr (vs, rg2) \<Rightarrow> Inr (v # vs, rg2)))"

text \<open>The values returned by such a sequence of calls, without the instance.\<close>

definition outputs :: "(double \<times> double) list \<Rightarrow> RandomGenerator \<Rightarrow> error + double list" where
  "outputs cs rg = (case uniforms cs rg of Inl e \<Rightarrow> Inl e | Inr (vs, rg') \<Rightarrow> Inr vs)"

text \<open>
  The word \<open>x[i + k]\<close> of the seeding recurrence, given \<open>cur = x[i]\<close>: the entries of
  \<open>seed_fill\<close> one at a time, for computing a single entry of a seeded array.
\<close>

fun seed_at :: "nat \<Rightarrow> nat \<Rightarrow> u32 \<Rightarrow> u32" where
  "seed_at 0 i cur = cur"
| "seed_at (Suc k) i cur = seed_at k (Suc i) (seed_next cur (Suc i))"

text \<open>
  The values a call of the canonical draw can work with: a finite value that is not
  negative, or the positive infinity.
\<close>

definition nonneg_double :: "double \<Rightarrow> bool" where
  "nonneg_double d = (case d of Finite y \<Rightarrow> 0 \<le> y | PosInf \<Rightarrow> True | NegInf \<Rightarrow> False | NaN \<Rightarrow> False)"

section \<open>The data model (pso\_types.h)\<close>

text \<open>
  The three structs of the header, field by field and under the names of the source.
  An \<^verbatim>\<open>int\<close> is modelled as an integer (no claim depends on its width), a
  \<^verbatim>\<open>std::vector<double>\<close> as a list of reals.
\<close>

record Particle =
  position :: "real list"
  velocity :: "real list"
  personal_best :: "real list"
  personal_best_fitness :: real
  current_fitness :: real

record PSOParameters =
  swarm_size :: int
  max_iterations :: int
  inertia_weight :: real
  cognitive_coeff :: real
  social_coeff :: real
  velocity_clamp_factor :: real
  fitness_threshold :: real
  stagnation_iterations :: int

text \<open>The default member initialisers of \<^verbatim>\<open>PSOParameters\<close>.\<close>

definition PSOParameters_default :: PSOParameters where
  "PSOParameters_default =
     \<lparr>swarm_size = 30, max_iterations = 1000, inertia_weight = 7298 / 10000,
      cognitive_coeff = 2, social_coeff = 2, velocity_clamp_factor = 2 / 10,
      fitness_threshold = 1 / 1000000, stagnation_iterations = 100\<rparr>"

record OptimisationResult =
  best_position :: "real list"
  best_fitness :: real
  iterations :: int
  function_evaluations :: int
  fitness_history :: "real list"
  coverged :: bool
  convergence_reason :: string

text \<open>
  The member declarations of \<^verbatim>\<open>struct OptimisationResult\<close> as they are written in the
  header, each as its type and its name, in the order of the source.
\<close>

definition OptimisationResult_members :: "(string \<times> string) list" where
  "OptimisationResult_members =
     [(''std::vector<double>'', ''best_position''),
      (''double'', ''best_fitness''),
      (''int'', ''iterations''),
      (''int'', ''function_evaluations''),
      (''std::vector<double>'', ''fitness_history''),
      (''bool'', ''coverged''),
      (''std::string'', ''convergence_reason'')]"

section \<open>The optimisation engine\<close>

text \<open>
  The repository declares the data the engine works on but holds no code of the engine
  itself. The definitions of this section follow the specification (sections 3 to 7), on
  top of the structs of the source. Positions, velocities and fitness values are reals,
  as the specification has them; non-finite values of the objective are outside the
  model.
\<close>

type_synonym objective = "real list \<Rightarrow> real"

text \<open>
  Modelled from the spec: the RandomSource of section 6, an external collaborator given
  to \<open>run\<close>; the engine that would call it is absent from the source. A source is its
  operation \<open>uniform(min, max)\<close> on a state \<open>'g\<close>: it returns a value and the next state,
  or fails.
\<close>

type_synonym 'g random_source = "real \<Rightarrow> real \<Rightarrow> 'g \<Rightarrow> error + real \<times> 'g"

text \<open>
  Modelled from the spec: a sequence of draws from the RandomSource, in order
  (sections 4.1 and 4.2), absent from the source; the first failure ends it.
\<close>

fun draws :: "'g random_source \<Rightarrow> (real \<times> real) list \<Rightarrow> 'g \<Rightarrow> error + real list \<times> 'g" where
  "draws src [] g = Inr ([], g)"
| "draws src ((mn, mx) # cs) g =
     (case src mn mx g of
        Inl e \<Rightarrow> Inl e
      | Inr (v, g1) \<Rightarrow>
          (case draws src cs g1 of
             Inl e \<Rightarrow> Inl e
           | Inr (vs, g2) \<Rightarrow> Inr (v # vs, g2)))"

text \<open>
  Modelled from the spec: the Swarm (section 3), the particles and the best position and
  fitness found by any of them so far; the source declares no such type.
\<close>

record Swarm =
  particles :: "Particle list"
  global_best_position :: "real list"
  global_best_fitness :: real

text \<open>
  Modelled from the spec: what the Optimizer's loop carries from one iteration to the
  next (sections 4.2 to 4.4), absent from the source: the swarm, the state of the random
  source, the number of completed iterations, the evaluation counter, the global best
  after each iteration, and the number of consecutive iterations without improvement.
  The field \<open>proposed\<close> is a record of the last iteration, read by no step of the engine:
  for every particle and dimension, the position and the velocity after the position
  update and before the boundary policy.
\<close>

record 'g Optimizer =
  swarm :: Swarm
  random :: 'g
  completed :: nat
  evaluations :: int
  history :: "real list"
  stagnant :: int
  proposed :: "(real \<times> real) list list"

text \<open>
  Modelled from the spec: the check of the configuration (section 4.1), absent from the
  source. It fails if \<open>D = 0\<close>, some \<open>lower[i] \<ge> upper[i]\<close>, \<open>swarm_size \<le> 0\<close> or a
  bound vector has a length other than \<open>D\<close>.
\<close>

definition valid_configuration :: "PSOParameters \<Rightarrow> real list \<Rightarrow> real list \<Rightarrow> nat \<Rightarrow> bool" where
  "valid_configuration prm lower upper D \<longleftrightarrow>
     D \<noteq> 0 \<and> length lower = D \<and> length upper = D
     \<and> list_all (\<lambda>(lo, hi). lo < hi) (zip lower upper) \<and> 0 < swarm_size prm"

text \<open>
  Modelled from the spec: \<open>v_max[i] = velocity_clamp_factor * (upper[i] - lower[i])\<close>
  (section 4.1), absent from the source.
\<close>

definition v_max :: "PSOParameters \<Rightarrow> real \<Rightarrow> real \<Rightarrow> real" where
  "v_max prm lo hi = velocity_clamp_factor prm * (hi - lo)"

text \<open>
  Modelled from the spec: the initialisation of one particle (section 4.1), absent from
  the source. Every \<open>position[i]\<close> is drawn from \<open>[lower[i], upper[i]]\<close>, every
  \<open>velocity[i]\<close> from \<open>[-v_max[i], v_max[i]]\<close>; one call of the objective gives the
  fitness, and the personal best starts at the particle's own position and fitness.
\<close>

definition init_particle ::
  "'g random_source \<Rightarrow> PSOParameters \<Rightarrow> real list \<Rightarrow> real list \<Rightarrow> objective \<Rightarrow> 'g
     \<Rightarrow> error + Particle \<times> 'g" where
  "init_particle src prm lower upper f g =
     (case draws src (zip lower upper) g of
        Inl e \<Rightarrow> Inl e
      | Inr (pos, g1) \<Rightarrow>
          (case draws src (map (\<lambda>(lo, hi). (- v_max prm lo hi, v_max prm lo hi))
                            (zip lower upper)) g1 of
             Inl e \<Rightarrow> Inl e
           | Inr (vel, g2) \<Rightarrow>
               Inr (\<lparr>position = pos, velocity = vel, personal_best = pos,
                     personal_best_fitness = f pos, current_fitness = f pos\<rparr>, g2)))"

text \<open>
  Modelled from the spec: the initialisation of \<open>swarm_size\<close> particles, one after the
  other (section 4.1), absent from the source.
\<close>

fun init_particles ::
  "'g random_source \<Rightarrow> PSOParameters \<Rightarrow> real list \<Rightarrow> real list \<Rightarrow> objective \<Rightarrow> nat \<Rightarrow> 'g
     \<Rightarrow> error + Particle list \<times> 'g" where
  "init_particles src prm lower upper f 0 g = Inr ([], g)"
| "init_particles src prm lower upper f (Suc n) g =
     (case init_particle src prm lower upper f g of
        Inl e \<Rightarrow> Inl e
      | Inr (p, g1) \<Rightarrow>
          (case init_particles src prm lower upper f n g1 of
             Inl e \<Rightarrow> Inl e
           | Inr (ps, g2) \<Rightarrow> Inr (p # ps, g2)))"

text \<open>
  Modelled from the spec: the best among all particles after the first evaluation pass
  (section 4.1), absent from the source; minimisation, the earlier particle wins a tie.
\<close>

fun best_of :: "Particle \<Rightarrow> Particle list \<Rightarrow> Particle" where
  "best_of b [] = b"
| "best_of b (p # ps) = best_of (if current_fitness p < current_fitness b then p else b) ps"

text \<open>
  Modelled from the spec: the initialisation of the swarm (section 4.1), absent from the
  source. It fails with \<open>InvalidConfiguration\<close> before any evaluation; the evaluation
  counter starts at the number of particles evaluated.
\<close>

definition initialise ::
  "'g random_source \<Rightarrow> PSOParameters \<Rightarrow> real list \<Rightarrow> real list \<Rightarrow> nat \<Rightarrow> objective \<Rightarrow> 'g
     \<Rightarrow> error + 'g Optimizer" where
  "initialise src prm lower upper D f g =
     (if \<not> valid_configuration prm lower upper D then Inl InvalidConfiguration
      else case init_particles src prm lower upper f (nat (swarm_size prm)) g of
        Inl e \<Rightarrow> Inl e
      | Inr (ps, g1) \<Rightarrow>
          (case ps of
             [] \<Rightarrow> Inl InvalidConfiguration
           | p # qs \<Rightarrow>
               Inr \<lparr>swarm = \<lparr>particles = ps,
                              global_best_position = position (best_of p qs),
                              global_best_fitness = current_fitness (best_of p qs)\<rparr>,
                    random = g1, completed = 0, evaluations = int (length ps),
                    history = [], stagnant = 0, proposed = []\<rparr>))"

text \<open>
  Modelled from the spec: \<open>clamp(v, -v_max, v_max)\<close> of the velocity update
  (section 4.2), absent from the source.
\<close>

definition clamp :: "real \<Rightarrow> real \<Rightarrow> real \<Rightarrow> real" where
  "clamp v lo hi = (if v < lo then lo else if hi < v then hi else v)"

text \<open>
  Modelled from the spec: the velocity and position update of one dimension of one
  particle (section 4.2), absent from the source. The dimension is given as its bounds,
  its position and velocity, and the personal and global best in it; \<open>r1\<close> and \<open>r2\<close> are
  the two draws. The result is the position and the velocity after the position update,
  before the boundary policy.
\<close>

type_synonym dimension = "real \<times> real \<times> real \<times> real \<times> real \<times> real"

definition move_dimension :: "PSOParameters \<Rightarrow> dimension \<Rightarrow> real \<Rightarrow> real \<Rightarrow> real \<times> real" where
  "move_dimension prm d r1 r2 =
     (case d of (lo, hi, x, v, pb, gb) \<Rightarrow>
        let v1 = inertia_weight prm * v
                 + cognitive_coeff prm * r1 * (pb - x)
                 + social_coeff prm * r2 * (gb - x);
            v2 = clamp v1 (- v_max prm lo hi) (v_max prm lo hi)
        in (x + v2, v2))"

text \<open>
  Modelled from the spec: the boundary policy (section 4.2), absent from the source. A
  position outside \<open>[lo, hi]\<close> is clamped to the nearest bound and the velocity of that
  dimension is set to zero.
\<close>

definition handle_boundary :: "real \<Rightarrow> real \<Rightarrow> real \<times> real \<Rightarrow> real \<times> real" where
  "handle_boundary lo hi xv =
     (case xv of (x, v) \<Rightarrow>
        if x < lo then (lo, 0) else if hi < x then (hi, 0) else (x, v))"

text \<open>
  Modelled from the spec: the whole update of one dimension (section 4.2), absent from
  the source: the velocity and position update, then the boundary policy.
\<close>

definition update_dimension :: "PSOParameters \<Rightarrow> dimension \<Rightarrow> real \<Rightarrow> real \<Rightarrow> real \<times> real" where
  "update_dimension prm d r1 r2 =
     (case d of (lo, hi, x, v, pb, gb) \<Rightarrow> handle_boundary lo hi (move_dimension prm d r1 r2))"

text \<open>
  Modelled from the spec: the dimensions of one particle in order, with fresh draws
  \<open>r1, r2\<close> from \<open>uniform(0, 1)\<close> for each (section 4.2), absent from the source. For
  every dimension the result holds the new position and velocity and, for the record
  \<open>proposed\<close>, the position and velocity before the boundary policy.
\<close>

fun update_dimensions ::
  "'g random_source \<Rightarrow> PSOParameters \<Rightarrow> dimension list \<Rightarrow> 'g
     \<Rightarrow> error + ((real \<times> real) \<times> (real \<times> real)) list \<times> 'g" where
  "update_dimensions src prm [] g = Inr ([], g)"
| "update_dimensions src prm (d # ds) g =
     (case src 0 1 g of
        Inl e \<Rightarrow> Inl e
      | Inr (r1, g1) \<Rightarrow>
          (case src 0 1 g1 of
             Inl e \<Rightarrow> Inl e
           | Inr (r2, g2) \<Rightarrow>
               (case update_dimensions src prm ds g2 of
                  Inl e \<Rightarrow> Inl e
                | Inr (rs, g3) \<Rightarrow>
                    Inr ((update_dimension prm d r1 r2, move_dimension prm d r1 r2) # rs, g3))))"

text \<open>
  Modelled from the spec: the update of one particle (section 4.2), absent from the
  source: the new position and velocity, one evaluation of the objective, and the
  personal best replaced on a strict improvement. The second component of the result is
  the particle's part of the record \<open>proposed\<close>.
\<close>

definition update_particle ::
  "'g random_source \<Rightarrow> PSOParameters \<Rightarrow> real list \<Rightarrow> real list \<Rightarrow> objective \<Rightarrow> real list
     \<Rightarrow> Particle \<Rightarrow> 'g \<Rightarrow> error + Particle \<times> (real \<times> real) list \<times> 'g" where
  "update_particle src prm lower upper f gbest p g =
     (case update_dimensions src prm
             (zip lower (zip upper (zip (position p) (zip (velocity p)
                (zip (personal_best p) gbest))))) g of
        Inl e \<Rightarrow> Inl e
      | Inr (rs, g1) \<Rightarrow>
          Inr (if f (map (fst \<circ> fst) rs) < personal_best_fitness p
               then \<lparr>position = map (fst \<circ> fst) rs, velocity = map (snd \<circ> fst) rs,
                      personal_best = map (fst \<circ> fst) rs,
                      personal_best_fitness = f (map (fst \<circ> fst) rs),
                      current_fitness = f (map (fst \<circ> fst) rs)\<rparr>
               else \<lparr>position = map (fst \<circ> fst) rs, velocity = map (snd \<circ> fst) rs,
                      personal_best = personal_best p,
                      personal_best_fitness = personal_best_fitness p,
                      current_fitness = f (map (fst \<circ> fst) rs)\<rparr>,
               map snd rs, g1))"

text \<open>
  Modelled from the spec: one sweep over the particles, in order (section 4.2), absent
  from the source. The update is sequential: a particle that improves on the global
  best replaces it at once, for the particles after it in the same sweep. The global
  best is the pair of its position and its fitness.
\<close>

fun sweep ::
  "'g random_source \<Rightarrow> PSOParameters \<Rightarrow> real list \<Rightarrow> real list \<Rightarrow> objective \<Rightarrow> Particle list
     \<Rightarrow> real list \<times> real \<Rightarrow> 'g
     \<Rightarrow> error + Particle list \<times> (real \<times> real) list list \<times> (real list \<times> real) \<times> 'g" where
  "sweep src prm lower upper f [] gb g = Inr ([], [], gb, g)"
| "sweep src prm lower upper f (p # ps) gb g =
     (case update_particle src prm lower upper f (fst gb) p g of
        Inl e \<Rightarrow> Inl e
      | Inr (p1, pr, g1) \<Rightarrow>
          (case sweep src prm lower upper f ps
                  (if current_fitness p1 < snd gb then (position p1, current_fitness p1) else gb)
                  g1 of
             Inl e \<Rightarrow> Inl e
           | Inr (ps1, prs, gb2, g2) \<Rightarrow> Inr (p1 # ps1, pr # prs, gb2, g2)))"

text \<open>
  Modelled from the spec: one iteration (sections 4.2 and 4.3), absent from the source:
  the sweep, one evaluation counted for each particle, the global best appended to the
  history, and the count of iterations without an improvement of more than \<open>1e-12\<close>.
\<close>

definition iteration ::
  "'g random_source \<Rightarrow> PSOParameters \<Rightarrow> real list \<Rightarrow> real list \<Rightarrow> objective \<Rightarrow> 'g Optimizer
     \<Rightarrow> error + 'g Optimizer" where
  "iteration src prm lower upper f st =
     (case sweep src prm lower upper f (particles (swarm st))
             (global_best_position (swarm st), global_best_fitness (swarm st)) (random st) of
        Inl e \<Rightarrow> Inl e
      | Inr (ps, prs, gb, g) \<Rightarrow>
          Inr \<lparr>swarm = \<lparr>particles = ps, global_best_position = fst gb,
                         global_best_fitness = snd gb\<rparr>,
               random = g, completed = completed st + 1,
               evaluations = evaluations st + int (length ps),
               history = history st @ [snd gb],
               stagnant = (if 1 / 10 ^ 12 < global_best_fitness (swarm st) - snd gb then 0
                           else stagnant st + 1),
               proposed = prs\<rparr>)"

text \<open>
  Modelled from the spec: the loop of the Optimizer with the convergence monitor
  (section 4.3) and the cancellation signal (section 5), absent from the source.
  \<open>optimise_loop \<dots> n st\<close> runs at most \<open>n\<close> more iterations from \<open>st\<close>. After each
  completed iteration the criteria are tried in the order threshold, stagnation,
  \<open>max_iterations\<close>; the signal \<open>cancel k\<close> (cancellation seen after \<open>k\<close> completed
  iterations) is read between two iterations. The result is the state after each
  completed iteration, in order, and the reason for stopping.
\<close>

fun optimise_loop ::
  "'g random_source \<Rightarrow> PSOParameters \<Rightarrow> real list \<Rightarrow> real list \<Rightarrow> objective \<Rightarrow> (nat \<Rightarrow> bool)
     \<Rightarrow> nat \<Rightarrow> 'g Optimizer \<Rightarrow> error + 'g Optimizer list \<times> string" where
  "optimise_loop src prm lower upper f cancel 0 st = Inr ([], ''max_iterations'')"
| "optimise_loop src prm lower upper f cancel (Suc n) st =
     (case iteration src prm lower upper f st of
        Inl e \<Rightarrow> Inl e
      | Inr st1 \<Rightarrow>
          if global_best_fitness (swarm st1) \<le> fitness_threshold prm
          then Inr ([st1], ''threshold'')
          else if stagnation_iterations prm \<le> stagnant st1
          then Inr ([st1], ''stagnation'')
          else if n = 0
          then Inr ([st1], ''max_iterations'')
          else if cancel (completed st1)
          then Inr ([st1], ''cancelled'')
          else (case optimise_loop src prm lower upper f cancel n st1 of
                  Inl e \<Rightarrow> Inl e
                | Inr (sts, reason) \<Rightarrow> Inr (st1 # sts, reason)))"

text \<open>
  Modelled from the spec: the assembly of the result (section 4.4), absent from the
  source. The flag (the field \<^verbatim>\<open>coverged\<close> of the source's struct) is set by the
  criteria threshold and stagnation only.
\<close>

definition assemble :: "'g Optimizer \<Rightarrow> string \<Rightarrow> OptimisationResult" where
  "assemble st reason =
     \<lparr>best_position = global_best_position (swarm st),
      best_fitness = global_best_fitness (swarm st),
      iterations = int (completed st),
      function_evaluations = evaluations st,
      fitness_history = history st,
      coverged = (reason = ''threshold'' \<or> reason = ''stagnation''),
      convergence_reason = reason\<rparr>"

text \<open>
  Modelled from the spec: a run of the Optimizer as the sequence of its states
  (section 6, \<open>run\<close>), absent from the source: the state after initialisation, the states
  after each completed iteration, and the reason for stopping.
\<close>

definition run_states ::
  "'g random_source \<Rightarrow> PSOParameters \<Rightarrow> real list \<Rightarrow> real list \<Rightarrow> nat \<Rightarrow> objective \<Rightarrow> 'g
     \<Rightarrow> (nat \<Rightarrow> bool) \<Rightarrow> error + 'g Optimizer \<times> 'g Optimizer list \<times> string" where
  "run_states src prm lower upper D f g cancel =
     (case initialise src prm lower upper D f g of
        Inl e \<Rightarrow> Inl e
      | Inr st0 \<Rightarrow>
          (case optimise_loop src prm lower upper f cancel (nat (max_iterations prm)) st0 of
             Inl e \<Rightarrow> Inl e
           | Inr (sts, reason) \<Rightarrow> Inr (st0, sts, reason)))"

text \<open>
  Modelled from the spec: the entry point \<open>run\<close> (section 6), absent from the source:
  the result assembled from the last state of the run.
\<close>

definition run ::
  "'g random_source \<Rightarrow> PSOParameters \<Rightarrow> real list \<Rightarrow> real list \<Rightarrow> nat \<Rightarrow> objective \<Rightarrow> 'g
     \<Rightarrow> (nat \<Rightarrow> bool) \<Rightarrow> error + OptimisationResult" where
  "run src prm lower upper D f g cancel =
     (case run_states src prm lower upper D f g cancel of
        Inl e \<Rightarrow> Inl e
      | Inr (st0, sts, reason) \<Rightarrow> Inr (assemble (last (st0 # sts)) reason))"

subsection \<open>Predicates for the invariants of the engine\<close>

text \<open>
  What the boundary policy guarantees in one dimension with the bounds \<open>lo\<close> and \<open>hi\<close>
  and the old position \<open>x\<close>, for the new position and velocity \<open>(x', v')\<close> and the
  recorded \<open>(x1, v2)\<close>: \<open>x1\<close> is the old position moved by \<open>v2\<close>; the new position lies
  within the bounds; if \<open>x1\<close> is outside the bounds, the new position is the bound it
  passed and the new velocity is zero; otherwise position and velocity are \<open>x1\<close> and
  \<open>v2\<close>.
\<close>

definition policy_ok :: "real \<Rightarrow> real \<Rightarrow> real \<Rightarrow> (real \<times> real) \<times> (real \<times> real) \<Rightarrow> bool" where
  "policy_ok lo hi x r =
     (case r of ((x', v'), (x1, v2)) \<Rightarrow>
        x1 = x + v2 \<and> lo \<le> x' \<and> x' \<le> hi
        \<and> (if x1 < lo then x' = lo \<and> v' = 0
            else if hi < x1 then x' = hi \<and> v' = 0
            else x' = x1 \<and> v' = v2))"

text \<open>The same for a dimension given with all its data.\<close>

definition dimension_ok :: "dimension \<Rightarrow> (real \<times> real) \<times> (real \<times> real) \<Rightarrow> bool" where
  "dimension_ok d r = (case d of (lo, hi, x, v, pb, gb) \<Rightarrow> policy_ok lo hi x r)"

text \<open>A particle of dimensionality \<open>D\<close>: its three vectors have length \<open>D\<close>.\<close>

definition wf_particle :: "nat \<Rightarrow> Particle \<Rightarrow> bool" where
  "wf_particle D p \<longleftrightarrow>
     length (position p) = D \<and> length (velocity p) = D \<and> length (personal_best p) = D"

text \<open>
  One particle before (\<open>p\<close>) and after (\<open>p'\<close>) an iteration, with its part \<open>pr\<close> of the
  record \<open>proposed\<close>: the vectors have the length of the bounds, and every dimension
  satisfies \<open>policy_ok\<close>.
\<close>

definition particle_step ::
  "real list \<Rightarrow> real list \<Rightarrow> Particle \<Rightarrow> Particle \<times> (real \<times> real) list \<Rightarrow> bool" where
  "particle_step lower upper p r \<longleftrightarrow>
     wf_particle (length lower) (fst r) \<and> length (snd r) = length lower \<and>
     list_all (\<lambda>i. policy_ok (lower ! i) (upper ! i) (position p ! i)
                      ((position (fst r) ! i, velocity (fst r) ! i), snd r ! i))
       [0..<length lower]"

text \<open>
  A state of the Optimizer with \<open>n\<close> particles of dimensionality \<open>D\<close> and a global
  best position of length \<open>D\<close>.
\<close>

definition wf_state :: "nat \<Rightarrow> nat \<Rightarrow> 'g Optimizer \<Rightarrow> bool" where
  "wf_state D n st \<longleftrightarrow>
     length (particles (swarm st)) = n \<and> list_all (wf_particle D) (particles (swarm st))
     \<and> length (global_best_position (swarm st)) = D"

text \<open>
  The states of a run, from \<open>st\<close> on: from each state to the next, every particle is
  related to its successor and its part of the record by \<open>particle_step\<close>.
\<close>

fun steps_ok :: "real list \<Rightarrow> real list \<Rightarrow> 'g Optimizer \<Rightarrow> 'g Optimizer list \<Rightarrow> bool" where
  "steps_ok lower upper st [] = True"
| "steps_ok lower upper st (st1 # sts) =
     (length (proposed st1) = length (particles (swarm st1))
      \<and> list_all2 (particle_step lower upper) (particles (swarm st))
            (zip (particles (swarm st1)) (proposed st1))
      \<and> steps_ok lower upper st1 sts)"

text \<open>A random source that never fails.\<close>

definition never_fails :: "'g random_source \<Rightarrow> bool" where
  "never_fails src \<longleftrightarrow> (\<forall>mn mx g. \<not> isl (src mn mx g))"


section \<open>Properties of the double precision arithmetic\<close>

lemma round_even_of_int [simp]: "round_even (of_int n) = n"
  by (simp add: round_even_def)

lemma round_even_nonneg: "0 \<le> x \<Longrightarrow> 0 \<le> round_even x"
  by (simp add: round_even_def)

lemma round_even_0 [simp]: "round_even 0 = 0"
  using round_even_of_int [of 0] by simp

lemma to_double_0 [simp]: "to_double 0 = Finite 0"
  by (simp add: to_double_def)

lemma exponent_eqI:
  assumes lo: "2 powi e \<le> \<bar>x\<bar>" and hi: "\<bar>x\<bar> < 2 powi (e + 1)" and e: "- 1022 \<le> e"
  shows "exponent x = e"
proof -
  define k where "k = \<lfloor>\<bar>x\<bar> * 2 ^ 1074\<rfloor>"
  define a where "a = nat (e + 1074)"
  have a: "int a = e + 1074" using e by (simp add: a_def)
  have p: "(2::real) powi e * 2 ^ 1074 = 2 ^ a"
    using a by (metis power_int_add power_int_of_nat of_nat_numeral zero_neq_numeral)
  have p1: "(2::real) powi (e + 1) * 2 ^ 1074 = 2 ^ (a + 1)"
    using p by (simp add: power_int_add)
  have "(2::real) ^ a \<le> \<bar>x\<bar> * 2 ^ 1074"
    using lo p by (metis mult_right_mono zero_le_numeral zero_le_power)
  then have "of_int (2 ^ a) \<le> \<bar>x\<bar> * 2 ^ 1074" by simp
  then have k1: "2 ^ a \<le> k" unfolding k_def by (simp only: le_floor_iff)
  have "\<bar>x\<bar> * 2 ^ 1074 < 2 ^ (a + 1)"
    using hi p1 by (metis mult_strict_right_mono zero_less_numeral zero_less_power)
  then have "\<bar>x\<bar> * 2 ^ 1074 < of_int (2 ^ (a + 1))" by simp
  then have k2: "k < 2 ^ (a + 1)" unfolding k_def by (simp add: floor_less_iff)
  have "bitlen k \<le> int (a + 1)"
    unfolding bitlen_le_iff_power nat_int using k2 by simp
  moreover have "int (a + 1) \<le> bitlen k"
    unfolding bitlen_ge_iff_power nat_int using k1 by simp
  ultimately have "bitlen k = e + 1075" using a by simp
  moreover have "exponent x = max (bitlen k - 1075) (- 1022)"
    unfolding exponent_def k_def ..
  ultimately show ?thesis using e by simp
qed


lemma to_double_exact:
  assumes n: "\<bar>n\<bar> < 2 ^ 53" and e: "- 1074 \<le> e" "e \<le> 971"
  shows "to_double (of_int n * 2 powi e) = Finite (of_int n * 2 powi e)"
proof (cases "n = 0")
  case True
  then show ?thesis by simp
next
  case False
  define x :: real where "x = of_int n * 2 powi e"
  define m where "m = \<bar>n\<bar>"
  define a where "a = nat (e + 1074)"
  have m: "0 < m" "m < 2 ^ 53" using False n by (simp_all add: m_def)
  have a: "int a = e + 1074" using e by (simp add: a_def)
  have pa: "(2::real) powi e * 2 ^ 1074 = 2 ^ a"
    using a by (metis power_int_add power_int_of_nat of_nat_numeral zero_neq_numeral)
  have absx: "\<bar>x\<bar> = of_int m * 2 powi e"
    by (simp add: x_def m_def abs_mult)
  have "\<bar>x\<bar> * 2 ^ 1074 = of_int m * (2 powi e * 2 ^ 1074)"
    by (simp only: absx mult.assoc)
  also have "\<dots> = of_int (m * 2 ^ a)"
    by (simp only: pa of_int_mult of_int_power of_int_numeral)
  finally have "\<lfloor>\<bar>x\<bar> * 2 ^ 1074\<rfloor> = m * 2 ^ a"
    by (simp only: floor_of_int)
  moreover have "exponent x = max (bitlen \<lfloor>\<bar>x\<bar> * 2 ^ 1074\<rfloor> - 1075) (- 1022)"
    unfolding exponent_def ..
  ultimately have "exponent x = max (bitlen (m * 2 ^ a) - 1075) (- 1022)"
    by (simp only:)
  then have ex: "exponent x = max (bitlen m + e - 1) (- 1022)"
    using m a by (simp add: add.commute)
  have bl: "bitlen m \<le> 53"
    using m by (simp add: bitlen_le_iff_power)
  define E where "E = exponent x"
  define j where "j = nat (e - E + 52)"
  have "0 \<le> e - E + 52"
    unfolding E_def ex using bl e by (simp add: max_def)
  then have j: "int j = e - E + 52"
    by (simp add: j_def)
  have "e = int j + (E - 52)" using j by simp
  then have pe: "(2::real) powi e = 2 ^ j * 2 powi (E - 52)"
    by (metis power_int_add power_int_of_nat zero_neq_numeral)
  have q: "x / 2 powi (E - 52) = of_int (n * 2 ^ j)"
    by (simp add: x_def pe)
  have unq: "of_int (n * 2 ^ j) * 2 powi (E - 52) = x"
    by (simp add: x_def pe)
  define T :: real where "T = 2 ^ 1024 - 2 ^ 970"
  have "m \<le> 2 ^ 53 - 1" using m by simp
  then have "real_of_int m \<le> real_of_int (2 ^ 53 - 1)"
    by (simp only: of_int_le_iff)
  then have "of_int m \<le> (2::real) ^ 53 - 1" by simp
  moreover have "(2::real) powi e \<le> 2 powi 971"
    using e by (intro power_int_increasing) simp_all
  ultimately have "\<bar>x\<bar> \<le> (2 ^ 53 - 1) * 2 powi 971"
    unfolding absx by (intro mult_mono) simp_all
  moreover have "(2 ^ 53 - 1) * 2 powi 971 < T"
    unfolding T_def by simp
  ultimately have "\<bar>x\<bar> < T" by (rule le_less_trans)
  then have "\<not> T \<le> x" "\<not> x \<le> - T"
    by (simp_all add: abs_less_iff not_le)
  then have "\<not> 2 ^ 1024 - 2 ^ 970 \<le> x" "\<not> x \<le> - (2 ^ 1024 - 2 ^ 970)"
    unfolding T_def .
  then have "to_double x = Finite (of_int (round_even (x / 2 powi (E - 52))) * 2 powi (E - 52))"
    by (simp only: to_double_def E_def if_False)
  also have "\<dots> = Finite x"
    by (simp only: q round_even_of_int unq)
  finally show ?thesis by (simp only: x_def)
qed

lemma to_double_of_int:
  "\<bar>n\<bar> < 2 ^ 53 \<Longrightarrow> to_double (of_int n) = Finite (of_int n)"
  using to_double_exact [of n 0] by simp

lemma to_double_nonneg:
  assumes "0 \<le> x"
  shows "nonneg_double (to_double x)"
proof -
  define q :: real where "q = 2 powi (exponent x - 52)"
  have q: "0 < q" by (simp add: q_def)
  have "0 \<le> x / q" using assms q by simp
  then have "0 \<le> round_even (x / q)" by (rule round_even_nonneg)
  then have r: "0 \<le> real_of_int (round_even (x / q)) * q" using q by simp
  have "(0::real) < 2 ^ 1024 - 2 ^ 970" by simp
  then have "\<not> x \<le> - (2 ^ 1024 - 2 ^ 970)" using assms by linarith
  then have "to_double x = (if 2 ^ 1024 - 2 ^ 970 \<le> x then PosInf
      else Finite (of_int (round_even (x / q)) * q))"
    by (simp only: to_double_def q_def if_False)
  then show ?thesis using r by (simp add: nonneg_double_def)
qed

lemma dadd_nonneg: "nonneg_double a \<Longrightarrow> nonneg_double b \<Longrightarrow> nonneg_double (dadd a b)"
  by (cases a; cases b) (simp_all add: nonneg_double_def to_double_nonneg [unfolded nonneg_double_def])

lemma dmul_Finite_nonneg: "0 \<le> x \<Longrightarrow> 0 \<le> y \<Longrightarrow> nonneg_double (dmul (Finite x) (Finite y))"
  by (simp add: to_double_nonneg)

lemma ddiv_nonneg: "nonneg_double a \<Longrightarrow> 0 < y \<Longrightarrow> nonneg_double (ddiv a (Finite y))"
  by (cases a) (simp_all add: nonneg_double_def to_double_nonneg [unfolded nonneg_double_def])


section \<open>Properties of the random number source\<close>

subsection \<open>The canonical draw and the calls of \<open>uniform\<close>\<close>

lemma generate_canonical_unit:
  "\<exists>u. fst (generate_canonical g) = Finite u \<and> 0 \<le> u \<and> u < 1"
proof -
  define y1 where "y1 = real_of_int (uint (fst (mt19937_next g)))"
  define y2 where "y2 = real_of_int (uint (fst (mt19937_next (snd (mt19937_next g)))))"
  define ret where "ret = ddiv (dadd (dadd (Finite 0) (dmul (Finite y1) (Finite 1)))
                                 (dmul (Finite y2) (Finite (2 ^ 32)))) (Finite (2 ^ 64))"
  have y: "0 \<le> y1" "0 \<le> y2"
    unfolding y1_def y2_def by (simp_all only: of_int_0_le_iff uint_nonnegative)
  have z: "nonneg_double (Finite 0)" by (simp add: nonneg_double_def)
  have m1: "nonneg_double (dmul (Finite y1) (Finite 1))"
    using y by (intro dmul_Finite_nonneg) simp_all
  have m2: "nonneg_double (dmul (Finite y2) (Finite (2 ^ 32)))"
    using y by (intro dmul_Finite_nonneg) simp_all
  have "nonneg_double (dadd (Finite 0) (dmul (Finite y1) (Finite 1)))"
    using z m1 by (rule dadd_nonneg)
  then have "nonneg_double (dadd (dadd (Finite 0) (dmul (Finite y1) (Finite 1)))
                                 (dmul (Finite y2) (Finite (2 ^ 32))))"
    using m2 by (rule dadd_nonneg)
  then have nn: "nonneg_double ret"
    unfolding ret_def by (rule ddiv_nonneg) simp
  have eq: "fst (generate_canonical g) = (if dle (Finite 1) ret then Finite (1 - 1 / 2 ^ 53) else ret)"
    by (simp add: generate_canonical_def Let_def ret_def y1_def y2_def split: prod.splits)
  show ?thesis
  proof (cases ret)
    case (Finite v)
    with nn have v: "0 \<le> v" by (simp add: nonneg_double_def)
    have c: "(0::real) \<le> 1 - 1 / 2 ^ 53 \<and> (1::real) - 1 / 2 ^ 53 < 1" by simp
    show ?thesis
    proof (cases "dle (Finite 1) ret")
      case True
      then have "fst (generate_canonical g) = Finite (1 - 1 / 2 ^ 53)" by (simp only: eq if_True)
      with c show ?thesis by blast
    next
      case False
      then have "fst (generate_canonical g) = Finite v" by (simp only: eq if_False Finite)
      moreover from False have "v < 1" by (auto simp: Finite dle_def)
      ultimately show ?thesis using v by blast
    qed
  next
    case PosInf
    then have "fst (generate_canonical g) = Finite (1 - 1 / 2 ^ 53)" by (simp add: eq dle_def)
    moreover have "(0::real) \<le> 1 - 1 / 2 ^ 53 \<and> (1::real) - 1 / 2 ^ 53 < 1" by simp
    ultimately show ?thesis by blast
  next
    case NegInf
    with nn show ?thesis by (simp add: nonneg_double_def)
  next
    case NaN
    with nn show ?thesis by (simp add: nonneg_double_def)
  qed
qed

lemma uniform_eq:
  "uniform mn mx rg =
     Inr (dadd (dmul (fst (generate_canonical (generator rg))) (dsub mx mn)) mn,
          \<lparr>generator = snd (generate_canonical (generator rg)), distribution = (mn, mx)\<rparr>)"
  by (simp add: uniform_def uniform_real_distribution_call_def split: prod.splits)

lemma uniforms_total:
  "\<exists>vs rg'. uniforms cs rg = Inr (vs, rg') \<and> length vs = length cs"
proof (induction cs arbitrary: rg)
  case Nil
  show ?case by simp
next
  case (Cons c cs)
  obtain mn mx where c: "c = (mn, mx)" by (cases c)
  obtain v rg1 where u: "uniform mn mx rg = Inr (v, rg1)" by (simp add: uniform_eq)
  from Cons.IH [of rg1] obtain vs rg2
    where r: "uniforms cs rg1 = Inr (vs, rg2)" "length vs = length cs" by blast
  show ?case by (simp add: c u r)
qed

lemma outputs_generator_only:
  "generator g1 = generator g2 \<Longrightarrow> outputs cs g1 = outputs cs g2"
  unfolding outputs_def by (cases cs) (auto simp: uniform_eq)

lemma outputs_single:
  "outputs [(mn, mx)] rg =
     Inr [dadd (dmul (fst (generate_canonical (generator rg))) (dsub mx mn)) mn]"
  by (simp add: outputs_def uniform_eq)

lemma twist_step_other: "j \<noteq> k \<Longrightarrow> twist_step k xs ! j = xs ! j"
  by (simp add: twist_step_def Let_def)

lemma fold_twist_step_other: "j \<notin> set ks \<Longrightarrow> fold twist_step ks xs ! j = xs ! j"
  by (induction ks arbitrary: xs) (simp_all add: twist_step_other)

lemma gen_rand_first:
  assumes "0 < length xs"
  shows "fold twist_step [0..<624] xs ! 0 =
           (let y = (xs ! 0 AND 0x80000000) OR (xs ! 1 AND 0x7fffffff)
            in xs ! 397 XOR drop_bit 1 y XOR (if y AND 1 \<noteq> 0 then 0x9908b0df else 0))"
proof -
  have split: "[0..<624] = 0 # [Suc 0..<624]"
    by (rule upt_conv_Cons) simp
  have notin: "0 \<notin> set [Suc 0..<624]"
    unfolding set_upt by simp
  have "fold twist_step [0..<624] xs ! 0 = fold twist_step [Suc 0..<624] (twist_step 0 xs) ! 0"
    unfolding split by (simp only: fold_Cons comp_apply)
  also have "\<dots> = twist_step 0 xs ! 0"
    using notin by (rule fold_twist_step_other)
  also have "\<dots> = (let y = (xs ! 0 AND 0x80000000) OR (xs ! 1 AND 0x7fffffff)
            in xs ! 397 XOR drop_bit 1 y XOR (if y AND 1 \<noteq> 0 then 0x9908b0df else 0))"
    using assms by (simp add: twist_step_def Let_def)
  finally show ?thesis .
qed

lemma nth_seed_fill: "i < k \<Longrightarrow> seed_fill k j cur ! i = seed_at i j cur"
proof (induction k arbitrary: i j cur)
  case 0
  then show ?case by simp
next
  case (Suc k)
  then show ?case by (cases i) simp_all
qed

lemma length_seed_fill: "length (seed_fill k j cur) = k"
  by (induction k arbitrary: j cur) simp_all

lemma first_output:
  "fst (mt19937_next (mt19937_seed s)) =
     temper (let y = (s AND 0x80000000) OR (seed_at 1 0 s AND 0x7fffffff)
             in seed_at 397 0 s XOR drop_bit 1 y XOR (if y AND 1 \<noteq> 0 then 0x9908b0df else 0))"
proof -
  have "fst (mt19937_next (mt19937_seed s)) = temper (fold twist_step [0..<624] (seed_fill 624 0 s) ! 0)"
    by (simp add: mt19937_next_def mt19937_seed_def M_gen_rand_def)
  also have "fold twist_step [0..<624] (seed_fill 624 0 s) ! 0 =
     (let y = (seed_fill 624 0 s ! 0 AND 0x80000000) OR (seed_fill 624 0 s ! 1 AND 0x7fffffff)
            in seed_fill 624 0 s ! 397 XOR drop_bit 1 y XOR (if y AND 1 \<noteq> 0 then 0x9908b0df else 0))"
    by (rule gen_rand_first) (simp add: length_seed_fill)
  also have "seed_fill 624 0 s ! 0 = s" using nth_seed_fill [of 0 624 0 s] by simp
  also have "seed_fill 624 0 s ! 1 = seed_at 1 0 s" by (rule nth_seed_fill) simp
  also have "seed_fill 624 0 s ! 397 = seed_at 397 0 s" by (rule nth_seed_fill) simp
  finally show ?thesis .
qed


lemma length_twist_step [simp]: "length (twist_step k xs) = length xs"
  by (simp add: twist_step_def Let_def)

lemma twist_step_at:
  "k < length xs \<Longrightarrow>
     twist_step k xs ! k =
       (let y = (xs ! k AND 0x80000000) OR (xs ! ((k + 1) mod 624) AND 0x7fffffff)
        in xs ! ((k + 397) mod 624) XOR drop_bit 1 y
             XOR (if y AND 1 \<noteq> 0 then 0x9908b0df else 0))"
  by (simp add: twist_step_def Let_def)

lemma gen_rand_second:
  assumes "1 < length xs"
  shows "fold twist_step [0..<624] xs ! 1 =
           (let y = (xs ! 1 AND 0x80000000) OR (xs ! 2 AND 0x7fffffff)
            in xs ! 398 XOR drop_bit 1 y XOR (if y AND 1 \<noteq> 0 then 0x9908b0df else 0))"
proof -
  have s0: "[0..<624] = 0 # [1..<624]"
    by (rule upt_conv_Cons [of 0 624, unfolded One_nat_def [symmetric]]) simp
  have s1: "[1..<624] = 1 # [2..<624]"
    using upt_conv_Cons [of 1 624] by (simp add: numeral_2_eq_2)
  have notin: "1 \<notin> set [2..<624]"
    unfolding set_upt by simp
  define zs where "zs = twist_step 0 xs"
  have z: "zs ! 1 = xs ! 1" "zs ! 2 = xs ! 2" "zs ! 398 = xs ! 398"
    by (simp_all add: zs_def twist_step_other)
  have lz: "1 < length zs" using assms by (simp add: zs_def)
  have i2: "((1::nat) + 1) mod 624 = 2" and i398: "((1::nat) + 397) mod 624 = 398"
    by simp_all
  have "fold twist_step [0..<624] xs ! 1 = fold twist_step [2..<624] (twist_step 1 zs) ! 1"
    unfolding s0 s1 zs_def by (simp only: fold_Cons comp_apply)
  also have "\<dots> = twist_step 1 zs ! 1"
    using notin by (rule fold_twist_step_other)
  also have "\<dots> = (let y = (zs ! 1 AND 0x80000000) OR (zs ! 2 AND 0x7fffffff)
            in zs ! 398 XOR drop_bit 1 y XOR (if y AND 1 \<noteq> 0 then 0x9908b0df else 0))"
    using twist_step_at [OF lz] unfolding i2 i398 .
  finally show ?thesis by (simp only: z)
qed

lemma seed_at_Suc: "seed_at (Suc k) i cur = seed_next (seed_at k i cur) (Suc (i + k))"
  by (induction k arbitrary: i cur) simp_all

lemma second_output:
  "fst (mt19937_next (snd (mt19937_next (mt19937_seed s)))) =
     temper (let y = (seed_at 1 0 s AND 0x80000000) OR (seed_at 2 0 s AND 0x7fffffff)
             in seed_at 398 0 s XOR drop_bit 1 y XOR (if y AND 1 \<noteq> 0 then 0x9908b0df else 0))"
proof -
  have "fst (mt19937_next (snd (mt19937_next (mt19937_seed s))))
          = temper (fold twist_step [0..<624] (seed_fill 624 0 s) ! 1)"
    by (simp add: mt19937_next_def mt19937_seed_def M_gen_rand_def)
  also have "fold twist_step [0..<624] (seed_fill 624 0 s) ! 1 =
     (let y = (seed_fill 624 0 s ! 1 AND 0x80000000) OR (seed_fill 624 0 s ! 2 AND 0x7fffffff)
      in seed_fill 624 0 s ! 398 XOR drop_bit 1 y XOR (if y AND 1 \<noteq> 0 then 0x9908b0df else 0))"
    by (rule gen_rand_second) (simp add: length_seed_fill)
  also have "seed_fill 624 0 s ! 1 = seed_at 1 0 s" by (rule nth_seed_fill) simp
  also have "seed_fill 624 0 s ! 2 = seed_at 2 0 s" by (rule nth_seed_fill) simp
  also have "seed_fill 624 0 s ! 398 = seed_at 398 0 s" by (rule nth_seed_fill) simp
  finally show ?thesis .
qed

subsection \<open>The first draw of the engines seeded with 0 and with 1\<close>

lemma seed_at_397_0: "seed_at 397 0 0 = 145341901"
  by code_simp

lemma seed_at_397_1: "seed_at 397 0 1 = 2864168489"
  by code_simp

lemma first_output_seed_0: "fst (mt19937_next (mt19937_seed 0)) = 2357136044"
  unfolding first_output seed_at_397_0 by (simp add: seed_next_def temper_def)

lemma first_output_seed_1: "fst (mt19937_next (mt19937_seed 1)) = 1791095845"
  unfolding first_output seed_at_397_1 by (simp add: seed_next_def temper_def)

lemma seed_at_398: "seed_at 398 0 s = seed_next (seed_at 397 0 s) 398"
  using seed_at_Suc [of 397 0 s] by simp

lemma seed_at_1: "seed_at 1 0 s = seed_next s 1"
  by simp

lemma seed_at_2: "seed_at 2 0 s = seed_next (seed_next s 1) 2"
  unfolding numeral_2_eq_2 by simp

lemma second_output_seed_0:
  "fst (mt19937_next (snd (mt19937_next (mt19937_seed 0)))) = 2546248239"
  unfolding second_output seed_at_398 seed_at_397_0 seed_at_1 seed_at_2
  by (simp add: seed_next_def temper_def)

lemma second_output_seed_1:
  "fst (mt19937_next (snd (mt19937_next (mt19937_seed 1)))) = 4282876139"
  unfolding second_output seed_at_398 seed_at_397_1 seed_at_1 seed_at_2
  by (simp add: seed_next_def temper_def)

lemma generate_canonical_outputs:
  "fst (generate_canonical g) =
     (let y1 = real_of_int (uint (fst (mt19937_next g)));
          y2 = real_of_int (uint (fst (mt19937_next (snd (mt19937_next g)))));
          ret = ddiv (dadd (dadd (Finite 0) (dmul (Finite y1) (Finite 1)))
                       (dmul (Finite y2) (Finite (2 ^ 32)))) (Finite (2 ^ 64))
      in if dle (Finite 1) ret then Finite (1 - 1 / 2 ^ 53) else ret)"
  by (simp add: generate_canonical_def Let_def split: prod.splits)

lemma to_double_round64:
  assumes "2 ^ 63 \<le> n" "n < 2 ^ 64"
  shows "to_double (of_int n) = Finite (of_int (round_even (of_int n / 2 ^ 11)) * 2 ^ 11)"
proof -
  have "(2::real) powi 63 \<le> \<bar>of_int n\<bar>"
    using assms(1) by (simp add: numeral_power_le_of_int_cancel_iff)
  moreover have "\<bar>real_of_int n\<bar> < 2 powi (63 + 1)"
    using assms by (simp add: of_int_less_numeral_power_cancel_iff)
  ultimately have e: "exponent (of_int n) = 63"
    by (rule exponent_eqI) simp
  have "real_of_int n < 2 ^ 64"
    using assms by (simp add: of_int_less_numeral_power_cancel_iff)
  moreover have "(2::real) ^ 64 < 2 ^ 1024 - 2 ^ 970" by simp
  ultimately have a: "\<not> 2 ^ 1024 - 2 ^ 970 \<le> real_of_int n" by linarith
  have "0 \<le> real_of_int n" using assms(1) by simp
  moreover have "- ((2::real) ^ 1024 - 2 ^ 970) < 0" by simp
  ultimately have b: "\<not> real_of_int n \<le> - (2 ^ 1024 - 2 ^ 970)" by linarith
  show ?thesis
    by (simp only: to_double_def a b if_False e) simp
qed

lemma canonical_seed_0:
  "fst (generate_canonical (mt19937_seed 0)) = Finite (5339869588066273 / 9007199254740992)"
proof -
  have a: "to_double 2357136044 = Finite 2357136044"
    using to_double_of_int [of 2357136044] by simp
  have b: "to_double 10936052914002591744 = Finite 10936052914002591744"
    using to_double_exact [of 2546248239 32] by simp
  have c: "to_double 10936052916359727788 = Finite 10936052916359727104"
    using to_double_round64 [of 10936052916359727788] by (simp add: round_even_def)
  have d: "to_double (5339869588066273 / 9007199254740992)
            = Finite (5339869588066273 / 9007199254740992)"
    using to_double_exact [of 5339869588066273 "- 53"] by simp
  show ?thesis
    unfolding generate_canonical_outputs first_output_seed_0 second_output_seed_0
    by (simp add: a b c d dle_def)
qed

lemma canonical_seed_1:
  "fst (generate_canonical (mt19937_seed 1)) = Finite (8981842261530687 / 9007199254740992)"
proof -
  have a: "to_double 1791095845 = Finite 1791095845"
    using to_double_of_int [of 1791095845] by simp
  have b: "to_double 18394812949823750144 = Finite 18394812949823750144"
    using to_double_exact [of 4282876139 32] by simp
  have c: "to_double 18394812951614845989 = Finite 18394812951614846976"
    using to_double_round64 [of 18394812951614845989] by (simp add: round_even_def)
  have d: "to_double (8981842261530687 / 9007199254740992)
            = Finite (8981842261530687 / 9007199254740992)"
    using to_double_exact [of 8981842261530687 "- 53"] by simp
  show ?thesis
    unfolding generate_canonical_outputs first_output_seed_1 second_output_seed_1
    by (simp add: a b c d dle_def)
qed

lemma to_double_1: "to_double 1 = Finite 1"
  using to_double_of_int [of 1] by simp

lemma uniform_unit_range:
  assumes "fst (generate_canonical (generator rg)) = Finite u" "to_double u = Finite u"
  shows "outputs [(Finite 0, Finite 1)] rg = Inr [Finite u]"
  using assms by (simp add: outputs_single dsub_def to_double_1)

lemma default_seed: "ucast ((ucast (rd :: u32) :: u64) XOR now) = rd XOR ucast now"
  by (rule bit_word_eqI) (auto simp: bit_simps)

lemma overflow_draw:
  assumes "fst (generate_canonical (generator rg)) = Finite u" and "0 < u"
    and "dsub mx mn = PosInf" and "mn = Finite a"
  shows "\<exists>rg'. uniform mn mx rg = Inr (PosInf, rg')"
  using assms by (simp add: uniform_eq)

subsection \<open>The claims about RandomGenerator\<close>

text \<open>
  C1, as the specification states it: for \<open>min > max\<close> the call \<open>uniform(min, max)\<close> fails
  with \<open>InvalidRange\<close>. The source checks nothing and has no such error: at \<open>min = 1\<close>,
  \<open>max = 0\<close> on an instance seeded with 0 the call does not fail with \<open>InvalidRange\<close>.
\<close>

theorem uniform_reversed_range_counterexample:
  "dless (Finite 0) (Finite 1)
   \<and> uniform (Finite 1) (Finite 0) (RandomGenerator_seed 0) \<noteq> Inl InvalidRange"
  by (simp add: uniform_eq)

text \<open>
  C1, amended: for \<open>min > max\<close> the call \<open>uniform(min, max)\<close> does not fail with
  \<open>InvalidRange\<close>.
\<close>

theorem uniform_no_invalid_range:
  "dless mx mn \<Longrightarrow> uniform mn mx rg \<noteq> Inl InvalidRange"
  by (simp add: uniform_eq)

theorem uniform_no_invalid_range_witness:
  "dless (Finite 0) (Finite 1)
   \<and> uniform (Finite 1) (Finite 0) (RandomGenerator_seed 7) \<noteq> Inl InvalidRange"
proof -
  have h: "dless (Finite 0) (Finite 1)" by simp
  show ?thesis
    using h uniform_no_invalid_range [OF h, of "RandomGenerator_seed 7"] by simp
qed

text \<open>
  C3: two instances seeded with the same seed \<open>s\<close>, each by the seeded constructor or by
  \<open>setSeed\<close> on an instance in any state, return the same values for the same sequence
  \<open>cs\<close> of \<open>uniform(min, max)\<close> calls; and the calls do return values, one for each call.
\<close>

theorem same_seed_same_sequence:
  "outputs cs (setSeed s g1) = outputs cs (setSeed s g2)
   \<and> outputs cs (RandomGenerator_seed s) = outputs cs (setSeed s g2)
   \<and> (\<exists>vs. outputs cs (RandomGenerator_seed s) = Inr vs \<and> length vs = length cs)"
proof -
  have a: "outputs cs (setSeed s g1) = outputs cs (setSeed s g2)"
    by (rule outputs_generator_only) (simp add: setSeed_def)
  have b: "outputs cs (RandomGenerator_seed s) = outputs cs (setSeed s g2)"
    by (rule outputs_generator_only) (simp add: setSeed_def RandomGenerator_seed_def)
  obtain vs rg' where "uniforms cs (RandomGenerator_seed s) = Inr (vs, rg')" "length vs = length cs"
    using uniforms_total by blast
  then have c: "\<exists>vs. outputs cs (RandomGenerator_seed s) = Inr vs \<and> length vs = length cs"
    by (simp add: outputs_def)
  from a b c show ?thesis by blast
qed

text \<open>
  C4, at an input where the code leaves the range: \<open>min = -2^1023\<close> and \<open>max = 2^1023\<close>
  are finite doubles with \<open>min \<le> max\<close>; their difference overflows, and on an instance
  seeded with 0 the call \<open>uniform(min, max)\<close> returns the positive infinity, which is not
  \<open>\<le> max\<close>.
\<close>

theorem uniform_overflow_leaves_range:
  "is_finite_double (Finite (- (2 ^ 1023))) \<and> is_finite_double (Finite (2 ^ 1023))
   \<and> dle (Finite (- (2 ^ 1023))) (Finite (2 ^ 1023))
   \<and> (\<exists>rg'. uniform (Finite (- (2 ^ 1023))) (Finite (2 ^ 1023)) (RandomGenerator_seed 0)
               = Inr (PosInf, rg'))
   \<and> \<not> dle PosInf (Finite (2 ^ 1023))"
proof -
  have p: "to_double (2 ^ 1023) = Finite (2 ^ 1023)"
    using to_double_exact [of "2 ^ 52" 971] by simp
  have n: "to_double (- (2 ^ 1023)) = Finite (- (2 ^ 1023))"
    using to_double_exact [of "- (2 ^ 52)" 971] by simp
  have w: "dsub (Finite (2 ^ 1023)) (Finite (- (2 ^ 1023))) = PosInf"
    by (simp add: dsub_def to_double_def)
  have g: "fst (generate_canonical (generator (RandomGenerator_seed 0)))
             = Finite (5339869588066273 / 9007199254740992)"
    by (simp add: RandomGenerator_seed_def canonical_seed_0)
  have "\<exists>rg'. uniform (Finite (- (2 ^ 1023))) (Finite (2 ^ 1023)) (RandomGenerator_seed 0)
               = Inr (PosInf, rg')"
    using g _ w by (rule overflow_draw) simp_all
  then show ?thesis
    using p n by (simp add: dle_def)
qed

text \<open>
  C7: an instance constructed without a seed takes its initial state from the two
  readings of the environment, the value of the random device and the tick count of the
  clock, combined by exclusive or; instances whose readings differ, in the clock alone or
  in the random device alone, can return different values, so two unseeded instances
  need not produce the same sequence.
\<close>

theorem unseeded_state_from_entropy:
  "generator (RandomGenerator_default rd now) = mt19937_seed (rd XOR ucast now)
   \<and> outputs [(Finite 0, Finite 1)] (RandomGenerator_default 0 0)
       \<noteq> outputs [(Finite 0, Finite 1)] (RandomGenerator_default 0 1)
   \<and> outputs [(Finite 0, Finite 1)] (RandomGenerator_default 0 0)
       \<noteq> outputs [(Finite 0, Finite 1)] (RandomGenerator_default 1 0)"
proof -
  have g00: "generator (RandomGenerator_default 0 0) = mt19937_seed 0"
    and g01: "generator (RandomGenerator_default 0 1) = mt19937_seed 1"
    and g10: "generator (RandomGenerator_default 1 0) = mt19937_seed 1"
    by (simp_all add: RandomGenerator_default_def)
  have d0: "to_double (5339869588066273 / 9007199254740992)
            = Finite (5339869588066273 / 9007199254740992)"
    using to_double_exact [of 5339869588066273 "- 53"] by simp
  have d1: "to_double (8981842261530687 / 9007199254740992)
            = Finite (8981842261530687 / 9007199254740992)"
    using to_double_exact [of 8981842261530687 "- 53"] by simp
  have o00: "outputs [(Finite 0, Finite 1)] (RandomGenerator_default 0 0)
               = Inr [Finite (5339869588066273 / 9007199254740992)]"
    by (rule uniform_unit_range) (simp_all only: g00 canonical_seed_0 d0)
  have o01: "outputs [(Finite 0, Finite 1)] (RandomGenerator_default 0 1)
               = Inr [Finite (8981842261530687 / 9007199254740992)]"
    by (rule uniform_unit_range) (simp_all only: g01 canonical_seed_1 d1)
  have o10: "outputs [(Finite 0, Finite 1)] (RandomGenerator_default 1 0)
               = Inr [Finite (8981842261530687 / 9007199254740992)]"
    by (rule uniform_unit_range) (simp_all only: g10 canonical_seed_1 d1)
  show ?thesis
    by (simp add: o00 o01 o10) (simp add: RandomGenerator_default_def default_seed)
qed

text \<open>
  C8: after any history \<open>hist\<close> of \<open>uniform\<close> calls on an instance \<open>g0\<close> in any state, the
  history having run to its end, \<open>setSeed(s)\<close> leaves the parameters of the distribution
  as the history left them, and the values returned afterwards, for any sequence \<open>cs\<close> of
  calls, are those of a fresh \<open>RandomGenerator(s)\<close>.
\<close>

theorem setSeed_erases_history:
  "\<exists>vs g. uniforms hist g0 = Inr (vs, g)
     \<and> distribution (setSeed s g) = distribution g
     \<and> outputs cs (setSeed s g) = outputs cs (RandomGenerator_seed s)"
proof -
  obtain vs g where h: "uniforms hist g0 = Inr (vs, g)"
    using uniforms_total by blast
  have "outputs cs (setSeed s g) = outputs cs (RandomGenerator_seed s)"
    by (rule outputs_generator_only) (simp add: setSeed_def RandomGenerator_seed_def)
  with h show ?thesis by (simp add: setSeed_def)
qed

text \<open>
  C10: for every finite double \<open>a\<close> the call \<open>uniform(a, a)\<close> succeeds and returns exactly
  \<open>a\<close>, on an instance in any state.
\<close>

theorem uniform_degenerate_range:
  "is_finite_double a \<Longrightarrow> \<exists>rg'. uniform a a rg = Inr (a, rg')"
proof -
  assume fin: "is_finite_double a"
  then obtain x where a: "a = Finite x" and x: "to_double x = Finite x"
    by (cases a) simp_all
  obtain u where u: "fst (generate_canonical (generator rg)) = Finite u"
    using generate_canonical_unit by blast
  show ?thesis
    by (simp add: uniform_eq a u dsub_def x)
qed

theorem uniform_degenerate_range_witness:
  "is_finite_double (Finite 5)
   \<and> (\<exists>rg'. uniform (Finite 5) (Finite 5) (RandomGenerator_seed 42) = Inr (Finite 5, rg'))"
proof -
  have h: "is_finite_double (Finite 5)"
    using to_double_of_int [of 5] by simp
  show ?thesis
    using h uniform_degenerate_range [OF h, of "RandomGenerator_seed 42"] by simp
qed

section \<open>Properties of the data model\<close>

text \<open>
  C2: the struct \<open>OptimisationResult\<close> has a member of type \<open>bool\<close> for the flag, but
  under the name \<open>coverged\<close>; no member of the struct is named \<open>converged\<close>.
\<close>

theorem result_flag_member_name:
  "(''bool'', ''coverged'') \<in> set OptimisationResult_members
   \<and> ''converged'' \<notin> snd ` set OptimisationResult_members"
  by (simp add: OptimisationResult_members_def)

text \<open>
  C5: a default-constructed \<open>PSOParameters\<close> meets the constraints on its fields:
  \<open>swarm_size > 0\<close>, \<open>max_iterations > 0\<close>, \<open>velocity_clamp_factor\<close> in \<open>(0, 1]\<close>, the
  inertia weight within 0.05 of 0.7, and the two coefficients within 0.05 of 2.0 (they are
  2.0).
\<close>

theorem default_parameters_meet_constraints:
  "0 < swarm_size PSOParameters_default
   \<and> 0 < max_iterations PSOParameters_default
   \<and> 0 < velocity_clamp_factor PSOParameters_default
   \<and> velocity_clamp_factor PSOParameters_default \<le> 1
   \<and> \<bar>inertia_weight PSOParameters_default - 7 / 10\<bar> < 5 / 100
   \<and> \<bar>cognitive_coeff PSOParameters_default - 2\<bar> < 5 / 100
   \<and> \<bar>social_coeff PSOParameters_default - 2\<bar> < 5 / 100"
  by (simp add: PSOParameters_default_def)

section \<open>Properties of the engine\<close>

subsection \<open>One dimension, one particle, one sweep, one iteration\<close>

lemma never_failsD:
  assumes "never_fails src"
  obtains v g' where "src mn mx g = Inr (v, g')"
proof -
  from assms have "\<not> isl (src mn mx g)" by (simp add: never_fails_def)
  then obtain r where "src mn mx g = Inr r" by (cases "src mn mx g") simp_all
  then show ?thesis using that by (cases r) simp
qed

lemma update_dimension_ok:
  assumes "lo \<le> hi"
  shows "policy_ok lo hi x (update_dimension prm (lo, hi, x, v, pb, gb) r1 r2,
                            move_dimension prm (lo, hi, x, v, pb, gb) r1 r2)"
proof -
  obtain x1 v2 where m: "move_dimension prm (lo, hi, x, v, pb, gb) r1 r2 = (x1, v2)"
    by (cases "move_dimension prm (lo, hi, x, v, pb, gb) r1 r2")
  then have x1: "x1 = x + v2"
    by (simp add: move_dimension_def Let_def)
  show ?thesis
    using assms x1 by (simp add: update_dimension_def m handle_boundary_def policy_ok_def)
qed

lemma update_dimensions_ok:
  assumes "list_all (\<lambda>(lo, hi, rest). lo \<le> hi) ds"
    and "update_dimensions src prm ds g = Inr (rs, g')"
  shows "list_all2 dimension_ok ds rs"
  using assms
proof (induction ds arbitrary: g rs)
  case Nil
  then show ?case by simp
next
  case (Cons d ds)
  obtain lo hi x v pb gb where d: "d = (lo, hi, x, v, pb, gb)" by (cases d)
  from Cons.prems(1) d have le: "lo \<le> hi" and rest: "list_all (\<lambda>(lo, hi, rest). lo \<le> hi) ds"
    by simp_all
  from Cons.prems(2) obtain r1 g1 r2 g2 rs' where
    "src 0 1 g = Inr (r1, g1)" "src 0 1 g1 = Inr (r2, g2)"
    and r: "update_dimensions src prm ds g2 = Inr (rs', g')"
    and rs: "rs = (update_dimension prm d r1 r2, move_dimension prm d r1 r2) # rs'"
    by (auto split: sum.splits prod.splits)
  have "dimension_ok d (update_dimension prm d r1 r2, move_dimension prm d r1 r2)"
    unfolding d dimension_ok_def using update_dimension_ok [OF le] by simp
  moreover have "list_all2 dimension_ok ds rs'"
    using rest r by (rule Cons.IH)
  ultimately show ?case by (simp add: rs)
qed

lemma update_dimensions_total:
  assumes "never_fails src"
  shows "\<exists>rs g'. update_dimensions src prm ds g = Inr (rs, g')"
proof (induction ds arbitrary: g)
  case Nil
  show ?case by simp
next
  case (Cons d ds)
  obtain r1 g1 where a: "src 0 1 g = Inr (r1, g1)" using assms by (rule never_failsD)
  obtain r2 g2 where b: "src 0 1 g1 = Inr (r2, g2)" using assms by (rule never_failsD)
  from Cons.IH [of g2] obtain rs g3 where c: "update_dimensions src prm ds g2 = Inr (rs, g3)"
    by blast
  show ?case by (simp add: a b c)
qed

lemma update_particle_ok:
  assumes len: "length lower = D" "length upper = D" "length gbest = D"
    and bounds: "list_all (\<lambda>(lo, hi). lo < hi) (zip lower upper)"
    and wf: "wf_particle D p"
    and res: "update_particle src prm lower upper f gbest p g = Inr (p', pr, g')"
  shows "particle_step lower upper p (p', pr)"
proof -
  define ds where "ds = zip lower (zip upper (zip (position p) (zip (velocity p)
                (zip (personal_best p) gbest))))"
  have lds: "length ds = D"
    using len wf by (simp add: ds_def wf_particle_def)
  have nth_ds: "ds ! i = (lower ! i, upper ! i, position p ! i, velocity p ! i,
                          personal_best p ! i, gbest ! i)" if "i < D" for i
    using that len wf by (simp add: ds_def wf_particle_def)
  have "lower ! i < upper ! i" if "i < D" for i
    using bounds that len by (simp add: list_all_length)
  then have lo_hi: "list_all (\<lambda>(lo, hi, rest). lo \<le> hi) ds"
    by (simp add: list_all_length lds nth_ds less_imp_le)
  from res obtain rs where u: "update_dimensions src prm ds g = Inr (rs, g')"
    and pr: "pr = map snd rs"
    and p': "p' = (if f (map (fst \<circ> fst) rs) < personal_best_fitness p
               then \<lparr>position = map (fst \<circ> fst) rs, velocity = map (snd \<circ> fst) rs,
                      personal_best = map (fst \<circ> fst) rs,
                      personal_best_fitness = f (map (fst \<circ> fst) rs),
                      current_fitness = f (map (fst \<circ> fst) rs)\<rparr>
               else \<lparr>position = map (fst \<circ> fst) rs, velocity = map (snd \<circ> fst) rs,
                      personal_best = personal_best p,
                      personal_best_fitness = personal_best_fitness p,
                      current_fitness = f (map (fst \<circ> fst) rs)\<rparr>)"
    by (auto simp: update_particle_def ds_def [symmetric] split: sum.splits prod.splits)
  have ok: "list_all2 dimension_ok ds rs"
    using lo_hi u by (rule update_dimensions_ok)
  have lx: "length rs = D"
    using ok lds by (simp add: list_all2_lengthD [symmetric])
  have dim: "dimension_ok (ds ! i) (rs ! i)" if "i < D" for i
    using ok that lds by (simp add: list_all2_nthD)
  have pos: "position p' = map (fst \<circ> fst) rs" and vel: "velocity p' = map (snd \<circ> fst) rs"
    by (simp_all add: p')
  have wf': "wf_particle D p'"
    using lx wf by (simp add: wf_particle_def p')
  have "policy_ok (lower ! i) (upper ! i) (position p ! i)
          ((position p' ! i, velocity p' ! i), pr ! i)" if "i < D" for i
  proof -
    have "((position p' ! i, velocity p' ! i), pr ! i) = rs ! i"
      using that lx by (simp add: pos vel pr prod_eq_iff)
    with dim [OF that] show ?thesis
      by (simp add: nth_ds [OF that] dimension_ok_def)
  qed
  then show ?thesis
    using wf' len lx by (simp add: particle_step_def list_all_iff pr)
qed

lemma update_particle_total:
  assumes "never_fails src"
  shows "\<exists>p' pr g'. update_particle src prm lower upper f gbest p g = Inr (p', pr, g')"
proof -
  obtain rs g1 where "update_dimensions src prm
             (zip lower (zip upper (zip (position p) (zip (velocity p)
                (zip (personal_best p) gbest))))) g = Inr (rs, g1)"
    using update_dimensions_total [OF assms] by blast
  then show ?thesis by (simp add: update_particle_def)
qed

lemma particle_step_wf: "particle_step lower upper p (p', pr) \<Longrightarrow> wf_particle (length lower) p'"
  by (simp add: particle_step_def)

lemma sweep_ok:
  assumes len: "length lower = D" "length upper = D"
    and bounds: "list_all (\<lambda>(lo, hi). lo < hi) (zip lower upper)"
    and wf: "list_all (wf_particle D) ps" and gb: "length (fst gb) = D"
    and res: "sweep src prm lower upper f ps gb g = Inr (ps', prs, gb', g')"
  shows "list_all2 (particle_step lower upper) ps (zip ps' prs)
           \<and> length ps' = length ps \<and> length prs = length ps
           \<and> list_all (wf_particle D) ps' \<and> length (fst gb') = D"
  using wf gb res
proof (induction ps arbitrary: gb g ps' prs)
  case Nil
  then show ?case by simp
next
  case (Cons p ps)
  from Cons.prems(1) have wfp: "wf_particle D p" and wfps: "list_all (wf_particle D) ps"
    by simp_all
  from Cons.prems(3) obtain p1 pr g1 ps1 prs1 where
    u: "update_particle src prm lower upper f (fst gb) p g = Inr (p1, pr, g1)"
    and r: "sweep src prm lower upper f ps
              (if current_fitness p1 < snd gb then (position p1, current_fitness p1) else gb) g1
            = Inr (ps1, prs1, gb', g')"
    and ps': "ps' = p1 # ps1" and prs: "prs = pr # prs1"
    by (auto split: sum.splits prod.splits)
  have st: "particle_step lower upper p (p1, pr)"
    using len Cons.prems(2) bounds wfp u by (rule update_particle_ok)
  have wf1: "wf_particle D p1"
    using particle_step_wf [OF st] len by simp
  have "length (fst (if current_fitness p1 < snd gb then (position p1, current_fitness p1) else gb)) = D"
    using wf1 Cons.prems(2) by (simp add: wf_particle_def)
  from Cons.IH [OF wfps this r] st wf1 show ?case
    by (simp add: ps' prs)
qed

lemma sweep_total:
  assumes "never_fails src"
  shows "\<exists>ps' prs gb' g'. sweep src prm lower upper f ps gb g = Inr (ps', prs, gb', g')"
proof (induction ps arbitrary: gb g)
  case Nil
  show ?case by simp
next
  case (Cons p ps)
  obtain p1 pr g1 where u: "update_particle src prm lower upper f (fst gb) p g = Inr (p1, pr, g1)"
    using update_particle_total [OF assms] by blast
  from Cons.IH obtain ps1 prs1 gb2 g2 where
    "sweep src prm lower upper f ps
       (if current_fitness p1 < snd gb then (position p1, current_fitness p1) else gb) g1
     = Inr (ps1, prs1, gb2, g2)"
    by blast
  then show ?case by (simp add: u)
qed

lemma iteration_ok:
  assumes len: "length lower = D" "length upper = D"
    and bounds: "list_all (\<lambda>(lo, hi). lo < hi) (zip lower upper)"
    and wf: "wf_state D n st"
    and res: "iteration src prm lower upper f st = Inr st'"
  shows "wf_state D n st' \<and> length (proposed st') = length (particles (swarm st'))
           \<and> list_all2 (particle_step lower upper) (particles (swarm st))
                (zip (particles (swarm st')) (proposed st'))"
proof -
  from wf have a: "list_all (wf_particle D) (particles (swarm st))"
    and b: "length (fst (global_best_position (swarm st), global_best_fitness (swarm st))) = D"
    and c: "length (particles (swarm st)) = n"
    by (simp_all add: wf_state_def)
  from res obtain ps prs gb g where
    s: "sweep src prm lower upper f (particles (swarm st))
             (global_best_position (swarm st), global_best_fitness (swarm st)) (random st)
          = Inr (ps, prs, gb, g)"
    and st': "particles (swarm st') = ps" "proposed st' = prs"
      "global_best_position (swarm st') = fst gb"
    by (auto simp: iteration_def split: sum.splits prod.splits)
  from sweep_ok [OF len bounds a b s] show ?thesis
    using c by (simp add: st' wf_state_def)
qed

lemma iteration_total:
  assumes "never_fails src"
  shows "\<exists>st'. iteration src prm lower upper f st = Inr st'"
proof -
  obtain ps prs gb g where
    "sweep src prm lower upper f (particles (swarm st))
             (global_best_position (swarm st), global_best_fitness (swarm st)) (random st)
          = Inr (ps, prs, gb, g)"
    using sweep_total [OF assms] by blast
  then show ?thesis by (simp add: iteration_def)
qed

lemma optimise_loop_ok:
  assumes len: "length lower = D" "length upper = D"
    and bounds: "list_all (\<lambda>(lo, hi). lo < hi) (zip lower upper)"
    and wf: "wf_state D m st"
    and res: "optimise_loop src prm lower upper f cancel n st = Inr (sts, reason)"
  shows "length sts \<le> n \<and> steps_ok lower upper st sts \<and> list_all (wf_state D m) sts"
  using wf res
proof (induction n arbitrary: st sts)
  case 0
  then show ?case by simp
next
  case (Suc n)
  from Suc.prems(2) obtain st1 where it: "iteration src prm lower upper f st = Inr st1"
    by (auto split: sum.splits)
  from iteration_ok [OF len bounds Suc.prems(1) it]
  have wf1: "wf_state D m st1"
    and one: "length (proposed st1) = length (particles (swarm st1))"
      "list_all2 (particle_step lower upper) (particles (swarm st))
                (zip (particles (swarm st1)) (proposed st1))"
    by simp_all
  from Suc.prems(2) it consider "sts = [st1]"
    | sts' where "optimise_loop src prm lower upper f cancel n st1 = Inr (sts', reason)"
        "sts = st1 # sts'"
    by (auto split: if_splits sum.splits prod.splits)
  then show ?case
  proof cases
    case 1
    then show ?thesis using wf1 one by simp
  next
    case 2
    from Suc.IH [OF wf1 2(1)] show ?thesis using wf1 one 2(2) by simp
  qed
qed

lemma optimise_loop_total:
  assumes "never_fails src"
  shows "\<exists>sts reason. optimise_loop src prm lower upper f cancel n st = Inr (sts, reason)
           \<and> (0 < n \<longrightarrow> sts \<noteq> [])"
proof (induction n arbitrary: st)
  case 0
  show ?case by simp
next
  case (Suc n)
  obtain st1 where it: "iteration src prm lower upper f st = Inr st1"
    using iteration_total [OF assms] by blast
  from Suc.IH [of st1] obtain sts reason
    where r: "optimise_loop src prm lower upper f cancel n st1 = Inr (sts, reason)"
    by blast
  show ?case by (simp add: it r)
qed

subsection \<open>Initialisation and the run\<close>

lemma draws_length:
  "draws src cs g = Inr (vs, g') \<Longrightarrow> length vs = length cs"
proof (induction cs arbitrary: g vs)
  case Nil
  then show ?case by simp
next
  case (Cons c cs)
  obtain mn mx where c: "c = (mn, mx)" by (cases c)
  from Cons.prems obtain v g1 vs' where "draws src cs g1 = Inr (vs', g')" "vs = v # vs'"
    by (auto simp: c split: sum.splits prod.splits)
  with Cons.IH show ?case by simp
qed

lemma draws_total:
  assumes "never_fails src"
  shows "\<exists>vs g'. draws src cs g = Inr (vs, g')"
proof (induction cs arbitrary: g)
  case Nil
  show ?case by simp
next
  case (Cons c cs)
  obtain mn mx where c: "c = (mn, mx)" by (cases c)
  obtain v g1 where a: "src mn mx g = Inr (v, g1)" using assms by (rule never_failsD)
  from Cons.IH [of g1] obtain vs g2 where b: "draws src cs g1 = Inr (vs, g2)" by blast
  show ?case by (simp add: c a b)
qed

lemma init_particle_ok:
  assumes "length lower = D" "length upper = D"
    and "init_particle src prm lower upper f g = Inr (p, g')"
  shows "wf_particle D p"
proof -
  from assms(3) obtain pos g1 vel where
    a: "draws src (zip lower upper) g = Inr (pos, g1)"
    and b: "draws src (map (\<lambda>(lo, hi). (- v_max prm lo hi, v_max prm lo hi))
                            (zip lower upper)) g1 = Inr (vel, g')"
    and p: "p = \<lparr>position = pos, velocity = vel, personal_best = pos,
                  personal_best_fitness = f pos, current_fitness = f pos\<rparr>"
    by (auto simp: init_particle_def split: sum.splits prod.splits)
  have "length pos = D" "length vel = D"
    using draws_length [OF a] draws_length [OF b] assms(1,2) by simp_all
  then show ?thesis by (simp add: p wf_particle_def)
qed

lemma init_particle_total:
  assumes "never_fails src"
  shows "\<exists>p g'. init_particle src prm lower upper f g = Inr (p, g')"
proof -
  obtain pos g1 where a: "draws src (zip lower upper) g = Inr (pos, g1)"
    using draws_total [OF assms] by blast
  obtain vel g2 where b:
    "draws src (map (\<lambda>(lo, hi). (- v_max prm lo hi, v_max prm lo hi)) (zip lower upper)) g1
       = Inr (vel, g2)"
    using draws_total [OF assms] by blast
  show ?thesis by (simp add: init_particle_def a b)
qed

lemma init_particles_ok:
  assumes "length lower = D" "length upper = D"
    and "init_particles src prm lower upper f n g = Inr (ps, g')"
  shows "length ps = n \<and> list_all (wf_particle D) ps"
  using assms(3)
proof (induction n arbitrary: g ps)
  case 0
  then show ?case by simp
next
  case (Suc n)
  from Suc.prems obtain p g1 ps' where
    a: "init_particle src prm lower upper f g = Inr (p, g1)"
    and b: "init_particles src prm lower upper f n g1 = Inr (ps', g')"
    and ps: "ps = p # ps'"
    by (auto split: sum.splits prod.splits)
  from init_particle_ok [OF assms(1,2) a] Suc.IH [OF b] show ?case
    by (simp add: ps)
qed

lemma init_particles_total:
  assumes "never_fails src"
  shows "\<exists>ps g'. init_particles src prm lower upper f n g = Inr (ps, g')"
proof (induction n arbitrary: g)
  case 0
  show ?case by simp
next
  case (Suc n)
  obtain p g1 where a: "init_particle src prm lower upper f g = Inr (p, g1)"
    using init_particle_total [OF assms] by blast
  from Suc.IH [of g1] obtain ps g2
    where b: "init_particles src prm lower upper f n g1 = Inr (ps, g2)" by blast
  show ?case by (simp add: a b)
qed

lemma best_of_in: "best_of b ps \<in> set (b # ps)"
  by (induction ps arbitrary: b) (auto split: if_splits)

lemma initialise_ok:
  assumes "initialise src prm lower upper D f g = Inr st0"
  shows "valid_configuration prm lower upper D \<and> wf_state D (nat (swarm_size prm)) st0"
proof -
  from assms have v: "valid_configuration prm lower upper D"
    by (auto simp: initialise_def split: if_splits)
  then have len: "length lower = D" "length upper = D"
    by (simp_all add: valid_configuration_def)
  from assms v obtain p qs g1 where
    a: "init_particles src prm lower upper f (nat (swarm_size prm)) g = Inr (p # qs, g1)"
    and st0: "particles (swarm st0) = p # qs"
      "global_best_position (swarm st0) = position (best_of p qs)"
    by (auto simp: initialise_def split: sum.splits prod.splits list.splits)
  from init_particles_ok [OF len a]
  have l: "length (p # qs) = nat (swarm_size prm)" and w: "list_all (wf_particle D) (p # qs)"
    by simp_all
  have "wf_particle D (best_of p qs)"
    using best_of_in [of p qs] w by (simp only: list_all_iff)
  then have "length (position (best_of p qs)) = D" by (simp add: wf_particle_def)
  then show ?thesis
    using v l w by (simp add: wf_state_def st0)
qed

lemma initialise_total:
  assumes "never_fails src" and "valid_configuration prm lower upper D"
  shows "\<exists>st0. initialise src prm lower upper D f g = Inr st0"
proof -
  from assms(2) have len: "length lower = D" "length upper = D" and pos: "0 < swarm_size prm"
    by (simp_all add: valid_configuration_def)
  obtain ps g1
    where a: "init_particles src prm lower upper f (nat (swarm_size prm)) g = Inr (ps, g1)"
    using init_particles_total [OF assms(1)] by blast
  from init_particles_ok [OF len a] have "length ps = nat (swarm_size prm)" by simp
  with pos obtain p qs where ps: "ps = p # qs" by (cases ps) simp_all
  show ?thesis
    using assms(2) by (simp add: initialise_def a ps)
qed

lemma steps_ok_nth:
  "steps_ok lower upper st0 sts \<Longrightarrow> k < length sts \<Longrightarrow>
     length (proposed (sts ! k)) = length (particles (swarm (sts ! k)))
     \<and> list_all2 (particle_step lower upper)
         (particles (swarm ((st0 # sts) ! k)))
         (zip (particles (swarm (sts ! k))) (proposed (sts ! k)))"
proof (induction sts arbitrary: st0 k)
  case Nil
  then show ?case by simp
next
  case (Cons st1 sts)
  show ?case
  proof (cases k)
    case 0
    with Cons.prems show ?thesis by simp
  next
    case (Suc k')
    from Cons.prems have "steps_ok lower upper st1 sts" "k' < length sts"
      by (simp_all add: Suc)
    from Cons.IH [OF this] show ?thesis by (simp add: Suc)
  qed
qed

lemma run_states_ok:
  assumes "run_states src prm lower upper D f g cancel = Inr (st0, sts, reason)"
  shows "valid_configuration prm lower upper D
           \<and> length sts \<le> nat (max_iterations prm)
           \<and> steps_ok lower upper st0 sts
           \<and> list_all (wf_state D (nat (swarm_size prm))) sts"
proof -
  from assms have i: "initialise src prm lower upper D f g = Inr st0"
    and o: "optimise_loop src prm lower upper f cancel (nat (max_iterations prm)) st0
              = Inr (sts, reason)"
    by (auto simp: run_states_def split: sum.splits prod.splits)
  from initialise_ok [OF i] have v: "valid_configuration prm lower upper D"
    and w: "wf_state D (nat (swarm_size prm)) st0"
    by simp_all
  from v have len: "length lower = D" "length upper = D"
    and bounds: "list_all (\<lambda>(lo, hi). lo < hi) (zip lower upper)"
    by (simp_all add: valid_configuration_def)
  from optimise_loop_ok [OF len bounds w o] v show ?thesis by simp
qed

lemma run_states_total:
  assumes "never_fails src" and "valid_configuration prm lower upper D"
  shows "\<exists>st0 sts reason. run_states src prm lower upper D f g cancel = Inr (st0, sts, reason)
           \<and> (0 < max_iterations prm \<longrightarrow> sts \<noteq> [])"
proof -
  obtain st0 where i: "initialise src prm lower upper D f g = Inr st0"
    using initialise_total [OF assms] by blast
  define n where "n = nat (max_iterations prm)"
  have "\<exists>sts reason. optimise_loop src prm lower upper f cancel n st0 = Inr (sts, reason)
           \<and> (0 < n \<longrightarrow> sts \<noteq> [])"
    using assms(1) by (rule optimise_loop_total)
  then obtain sts reason
    where o: "optimise_loop src prm lower upper f cancel n st0 = Inr (sts, reason)"
      and ne: "0 < n \<longrightarrow> sts \<noteq> []"
    by blast
  have "run_states src prm lower upper D f g cancel = Inr (st0, sts, reason)"
    by (simp add: run_states_def i o [unfolded n_def])
  moreover have "0 < max_iterations prm \<longrightarrow> sts \<noteq> []"
    using ne by (simp add: n_def)
  ultimately show ?thesis by blast
qed

lemma run_particle_step:
  assumes r: "run_states src prm lower upper D f g cancel = Inr (st0, sts, reason)"
    and k: "k < length sts" and j: "j < nat (swarm_size prm)"
  shows "length lower = D \<and> length sts \<le> nat (max_iterations prm)
         \<and> length (particles (swarm (sts ! k))) = nat (swarm_size prm)
         \<and> length (proposed (sts ! k)) = nat (swarm_size prm)
         \<and> particle_step lower upper (particles (swarm ((st0 # sts) ! k)) ! j)
              (particles (swarm (sts ! k)) ! j, proposed (sts ! k) ! j)"
proof -
  from run_states_ok [OF r] have v: "valid_configuration prm lower upper D"
    and l: "length sts \<le> nat (max_iterations prm)"
    and s: "steps_ok lower upper st0 sts"
    and w: "list_all (wf_state D (nat (swarm_size prm))) sts"
    by simp_all
  from v have len: "length lower = D" by (simp add: valid_configuration_def)
  from w k have "wf_state D (nat (swarm_size prm)) (sts ! k)"
    by (simp add: list_all_length)
  then have n: "length (particles (swarm (sts ! k))) = nat (swarm_size prm)"
    by (simp add: wf_state_def)
  from steps_ok_nth [OF s k]
  have np: "length (proposed (sts ! k)) = length (particles (swarm (sts ! k)))"
    and all2: "list_all2 (particle_step lower upper)
         (particles (swarm ((st0 # sts) ! k)))
         (zip (particles (swarm (sts ! k))) (proposed (sts ! k)))"
    by simp_all
  have jz: "j < length (zip (particles (swarm (sts ! k))) (proposed (sts ! k)))"
    using j n np by simp
  have "particle_step lower upper (particles (swarm ((st0 # sts) ! k)) ! j)
          (zip (particles (swarm (sts ! k))) (proposed (sts ! k)) ! j)"
    using all2 jz by (rule list_all2_nthD2)
  moreover have "zip (particles (swarm (sts ! k))) (proposed (sts ! k)) ! j
                   = (particles (swarm (sts ! k)) ! j, proposed (sts ! k) ! j)"
    using j n np by (intro nth_zip) simp_all
  ultimately show ?thesis using len l n np by simp
qed


lemma policy_okD:
  "policy_ok lo hi x ((x', v'), (x1, v2)) \<Longrightarrow>
     x1 = x + v2 \<and> lo \<le> x' \<and> x' \<le> hi
     \<and> (x1 < lo \<longrightarrow> x' = lo \<and> v' = 0)
     \<and> (hi < x1 \<longrightarrow> x' = hi \<and> v' = 0)
     \<and> (lo \<le> x1 \<and> x1 \<le> hi \<longrightarrow> x' = x1 \<and> v' = v2)"
  by (auto simp: policy_ok_def split: if_splits)

lemma particle_step_nth:
  assumes "particle_step lower upper p (p', pr)" and "i < length lower"
  shows "length (position p') = length lower \<and> length (velocity p') = length lower
         \<and> length pr = length lower
         \<and> policy_ok (lower ! i) (upper ! i) (position p ! i)
              ((position p' ! i, velocity p' ! i), (fst (pr ! i), snd (pr ! i)))"
  using assms by (simp add: particle_step_def wf_particle_def list_all_iff)

subsection \<open>The bounds invariant\<close>

text \<open>
  C6, in two parts. With a random source that never fails, every run on a valid
  configuration returns its states, with at least one iteration if \<open>max_iterations > 0\<close>.
  And in every run of any random source that returns its states, after each iteration
  \<open>k\<close>, for every particle \<open>j\<close> and dimension \<open>i\<close>: the position lies within
  \<open>[lower[i], upper[i]]\<close>; if the position after the position update (the previous
  position moved by the new, clamped velocity) was below the lower or above the upper
  bound, the position is that bound and the velocity of the dimension is zero; otherwise
  position and velocity are the ones of the position update.
\<close>

theorem bounds_invariant:
  "(never_fails src \<and> valid_configuration prm lower upper D \<longrightarrow>
      (\<exists>st0 sts reason.
         run_states src prm lower upper D f g cancel = Inr (st0, sts, reason)
         \<and> (0 < max_iterations prm \<longrightarrow> sts \<noteq> [])))
   \<and> (run_states src prm lower upper D f g cancel = Inr (st0, sts, reason)
        \<and> k < length sts \<and> j < nat (swarm_size prm) \<and> i < D \<longrightarrow>
      length sts \<le> nat (max_iterations prm)
      \<and> length (particles (swarm (sts ! k))) = nat (swarm_size prm)
      \<and> length (proposed (sts ! k)) = nat (swarm_size prm)
      \<and> (let p = particles (swarm ((st0 # sts) ! k)) ! j;
              p' = particles (swarm (sts ! k)) ! j;
              x1 = fst (proposed (sts ! k) ! j ! i);
              v2 = snd (proposed (sts ! k) ! j ! i)
          in length (position p') = D \<and> length (velocity p') = D
             \<and> length (proposed (sts ! k) ! j) = D
             \<and> x1 = position p ! i + v2
             \<and> lower ! i \<le> position p' ! i \<and> position p' ! i \<le> upper ! i
             \<and> (x1 < lower ! i \<longrightarrow> position p' ! i = lower ! i \<and> velocity p' ! i = 0)
             \<and> (upper ! i < x1 \<longrightarrow> position p' ! i = upper ! i \<and> velocity p' ! i = 0)
             \<and> (lower ! i \<le> x1 \<and> x1 \<le> upper ! i \<longrightarrow>
                  position p' ! i = x1 \<and> velocity p' ! i = v2)))"
proof (rule conjI; rule impI)
  assume "never_fails src \<and> valid_configuration prm lower upper D"
  then have "never_fails src" "valid_configuration prm lower upper D" by simp_all
  then show "\<exists>st0 sts reason.
         run_states src prm lower upper D f g cancel = Inr (st0, sts, reason)
         \<and> (0 < max_iterations prm \<longrightarrow> sts \<noteq> [])"
    by (rule run_states_total)
next
  assume a: "run_states src prm lower upper D f g cancel = Inr (st0, sts, reason)
        \<and> k < length sts \<and> j < nat (swarm_size prm) \<and> i < D"
  then have r: "run_states src prm lower upper D f g cancel = Inr (st0, sts, reason)"
    and k: "k < length sts" and j: "j < nat (swarm_size prm)" and i: "i < D"
    by simp_all
  define p where "p = particles (swarm ((st0 # sts) ! k)) ! j"
  define p' where "p' = particles (swarm (sts ! k)) ! j"
  define pr where "pr = proposed (sts ! k) ! j"
  from run_particle_step [OF r k j]
  have len: "length lower = D" and l: "length sts \<le> nat (max_iterations prm)"
    and n: "length (particles (swarm (sts ! k))) = nat (swarm_size prm)"
    and np: "length (proposed (sts ! k)) = nat (swarm_size prm)"
    and ps: "particle_step lower upper p (p', pr)"
    unfolding p_def p'_def pr_def by simp_all
  from i len have i': "i < length lower" by simp
  from particle_step_nth [OF ps i']
  have wfp: "length (position p') = D" "length (velocity p') = D" "length pr = D"
    and pol: "policy_ok (lower ! i) (upper ! i) (position p ! i)
              ((position p' ! i, velocity p' ! i), (fst (pr ! i), snd (pr ! i)))"
    using len by simp_all
  note d = policy_okD [OF pol]
  have "length (position p') = D \<and> length (velocity p') = D
             \<and> length pr = D
             \<and> fst (pr ! i) = position p ! i + snd (pr ! i)
             \<and> lower ! i \<le> position p' ! i \<and> position p' ! i \<le> upper ! i
             \<and> (fst (pr ! i) < lower ! i \<longrightarrow> position p' ! i = lower ! i \<and> velocity p' ! i = 0)
             \<and> (upper ! i < fst (pr ! i) \<longrightarrow> position p' ! i = upper ! i \<and> velocity p' ! i = 0)
             \<and> (lower ! i \<le> fst (pr ! i) \<and> fst (pr ! i) \<le> upper ! i \<longrightarrow>
                  position p' ! i = fst (pr ! i) \<and> velocity p' ! i = snd (pr ! i))"
    using wfp d by blast
  then show "length sts \<le> nat (max_iterations prm)
      \<and> length (particles (swarm (sts ! k))) = nat (swarm_size prm)
      \<and> length (proposed (sts ! k)) = nat (swarm_size prm)
      \<and> (let p = particles (swarm ((st0 # sts) ! k)) ! j;
              p' = particles (swarm (sts ! k)) ! j;
              x1 = fst (proposed (sts ! k) ! j ! i);
              v2 = snd (proposed (sts ! k) ! j ! i)
          in length (position p') = D \<and> length (velocity p') = D
             \<and> length (proposed (sts ! k) ! j) = D
             \<and> x1 = position p ! i + v2
             \<and> lower ! i \<le> position p' ! i \<and> position p' ! i \<le> upper ! i
             \<and> (x1 < lower ! i \<longrightarrow> position p' ! i = lower ! i \<and> velocity p' ! i = 0)
             \<and> (upper ! i < x1 \<longrightarrow> position p' ! i = upper ! i \<and> velocity p' ! i = 0)
             \<and> (lower ! i \<le> x1 \<and> x1 \<le> upper ! i \<longrightarrow>
                  position p' ! i = x1 \<and> velocity p' ! i = v2))"
    using l n np unfolding Let_def p_def p'_def pr_def by blast
qed

theorem bounds_invariant_witness:
  "never_fails (\<lambda>mn mx (n::nat). Inr (mx, Suc n))
   \<and> valid_configuration (PSOParameters_default\<lparr>swarm_size := 1, max_iterations := 1\<rparr>) [- 10] [10] 1
   \<and> (\<exists>st0 sts reason.
        run_states (\<lambda>mn mx (n::nat). Inr (mx, Suc n))
          (PSOParameters_default\<lparr>swarm_size := 1, max_iterations := 1\<rparr>) [- 10] [10] 1
          (\<lambda>xs. sum_list (map (\<lambda>x. x * x) xs)) 0 (\<lambda>k. False) = Inr (st0, sts, reason)
        \<and> sts \<noteq> []
        \<and> [10] ! 0 < fst (proposed (sts ! 0) ! 0 ! 0)
        \<and> position (particles (swarm (sts ! 0)) ! 0) ! 0 = 10
        \<and> velocity (particles (swarm (sts ! 0)) ! 0) ! 0 = 0)"
proof -
  define S :: "nat random_source" where "S = (\<lambda>mn mx n. Inr (mx, Suc n))"
  define P where "P = PSOParameters_default\<lparr>swarm_size := 1, max_iterations := 1\<rparr>"
  define F :: objective where "F = (\<lambda>xs. sum_list (map (\<lambda>x. x * x) xs))"
  have nf: "never_fails S" by (simp add: never_fails_def S_def)
  have v: "valid_configuration P [- 10] [10] 1"
    by (simp add: valid_configuration_def P_def PSOParameters_default_def)
  from bounds_invariant [where src = S and prm = P and lower = "[- 10]" and upper = "[10]"
      and D = 1 and f = F and g = 0 and cancel = "\<lambda>k. False"] nf v
  obtain st0 sts reason
    where r: "run_states S P [- 10] [10] 1 F 0 (\<lambda>k. False) = Inr (st0, sts, reason)"
      and ne: "0 < max_iterations P \<longrightarrow> sts \<noteq> []"
    by blast
  from ne have ne': "sts \<noteq> []" by (simp add: P_def)
  have x1: "[10] ! 0 < fst (proposed (sts ! 0) ! 0 ! 0)"
    using r by (auto simp: run_states_def initialise_def valid_configuration_def P_def
       PSOParameters_default_def S_def F_def init_particle_def v_max_def iteration_def
       update_particle_def update_dimension_def move_dimension_def handle_boundary_def
       clamp_def Let_def numeral_eq_Suc)
  from bounds_invariant [where src = S and prm = P and lower = "[- 10]" and upper = "[10]"
      and D = 1 and f = F and g = 0 and cancel = "\<lambda>k. False" and ?st0.0 = st0 and sts = sts
      and reason = reason and k = 0 and j = 0 and i = 0] r ne'
  have "(let p = particles (swarm ((st0 # sts) ! 0)) ! 0;
              p' = particles (swarm (sts ! 0)) ! 0;
              x1 = fst (proposed (sts ! 0) ! 0 ! 0);
              v2 = snd (proposed (sts ! 0) ! 0 ! 0)
          in ([10] ! 0 < x1 \<longrightarrow> position p' ! 0 = [10] ! 0 \<and> velocity p' ! 0 = 0))"
    by (simp add: P_def Let_def)
  with x1 have "position (particles (swarm (sts ! 0)) ! 0) ! 0 = 10
        \<and> velocity (particles (swarm (sts ! 0)) ! 0) ! 0 = 0"
    by (simp add: Let_def)
  with nf v r ne' x1 show ?thesis
    unfolding S_def P_def F_def by blast
qed

end
